theory Spec2Isabelle
  imports Complex_Main
begin

text \<open>
  A model of the exam-grading assistant: the rasteriser that turns a PDF into page images,
  the segmentation of the pages into student submissions, the sequential grading run with
  its queue of submission records, the normalisation of the grading model's response, and
  the export of the results. Each function of the source is a function here; what lies
  outside the program (the PDF library, the grading model, \<open>JSON.parse\<close>, the identifier
  generator) is a parameter.
\<close>

section \<open>JavaScript strings and numbers\<close>

text \<open>
  A JavaScript string is a sequence of UTF-16 code units. The program compares strings,
  trims them and splices Korean literals into them, so a string is modelled as the list of
  its code units; \<open>js\<close> embeds an ASCII literal. Numbers that the program only counts
  with (indices, lengths, page numbers) are naturals; numbers that arrive in the grading
  payload are rationals (the finite values a JSON number can denote).
\<close>

type_synonym jsstring = "nat list"

type_synonym jsnum = rat

definition js :: "string \<Rightarrow> jsstring" where
  "js s = map of_char s"

text \<open>Decimal rendering of a non-negative integer, as a template literal renders a counter.\<close>

function string_of_nat :: "nat \<Rightarrow> jsstring" where
  "string_of_nat n = (if n < 10 then [48 + n] else string_of_nat (n div 10) @ [48 + n mod 10])"
  by pat_completeness auto
termination
  by (relation "measure id") auto

declare string_of_nat.simps [simp del]

text \<open>\<open>String.prototype.replace\<close> with a string pattern: only the first occurrence is replaced.\<close>

fun replace_first :: "jsstring \<Rightarrow> jsstring \<Rightarrow> jsstring \<Rightarrow> jsstring" where
  "replace_first pat rep [] = (if pat = [] then rep else [])"
| "replace_first pat rep (c # cs) =
     (if take (length pat) (c # cs) = pat then rep @ drop (length pat) (c # cs)
      else c # replace_first pat rep cs)"

text \<open>\<open>Array.prototype.slice(start, end)\<close> for \<open>0 \<le> start \<le> end\<close>.\<close>

definition slice :: "'a list \<Rightarrow> nat \<Rightarrow> nat \<Rightarrow> 'a list" where
  "slice xs start end' = take (end' - start) (drop start xs)"

section \<open>Data model (types.ts)\<close>

record File =
  name :: jsstring
  type :: jsstring
  blob :: "nat list"

record ScoreItem =
  q_num :: jsnum
  score :: jsnum
  student_answer :: jsstring
  reason :: jsstring

record GradingResult =
  student_name :: jsstring
  student_class :: "jsstring option"
  scores :: "ScoreItem list"
  total_score :: jsnum
  feedback :: jsstring
  hasOCRIssues :: "bool option"

datatype Status = pending | processing | completed | error

record StudentSubmission =
  id' :: jsstring
  files :: "File list"
  status :: Status
  result :: "GradingResult option"
  errorMsg :: "jsstring option"

datatype AppStep = SETUP | UPLOAD_STUDENTS | GRADING

datatype GradingModel = gemini_3_flash_preview | gemini_3_pro_preview

text \<open>A value that a \<open>throw\<close> or a rejected promise carries: an \<open>Error\<close> object with its
  message, or anything else (a \<open>FileReader\<close> error event, for instance).\<close>

datatype thrown = Error_obj jsstring | Other_thrown

section \<open>Grading service (services/geminiService.ts, gradeSubmission)\<close>

text \<open>
  A value that \<open>JSON.parse\<close> returns. An object is the list of its own properties; reading
  a property that is absent gives \<open>undefined\<close>, modelled by \<open>None\<close>.
\<close>

datatype json =
    JNull
  | JBool bool
  | JNum jsnum
  | JStr jsstring
  | JArr "json list"
  | JObj "(jsstring \<times> json) list"

text \<open>\<open>rawResult.key\<close> for a \<open>rawResult\<close> other than \<open>null\<close>: only an object has the keys
  read here.\<close>

fun get_prop :: "json \<Rightarrow> jsstring \<Rightarrow> json option" where
  "get_prop (JObj kvs) k = map_of kvs k"
| "get_prop JNull k = None"
| "get_prop (JBool b) k = None"
| "get_prop (JNum n) k = None"
| "get_prop (JStr s) k = None"
| "get_prop (JArr xs) k = None"

text \<open>Truthiness of a value read from the payload.\<close>

fun truthy :: "json option \<Rightarrow> bool" where
  "truthy None = False"
| "truthy (Some JNull) = False"
| "truthy (Some (JBool b)) = b"
| "truthy (Some (JNum n)) = (n \<noteq> 0)"
| "truthy (Some (JStr s)) = (s \<noteq> [])"
| "truthy (Some (JArr xs)) = True"
| "truthy (Some (JObj kvs)) = True"

fun is_string :: "json option \<Rightarrow> bool" where
  "is_string (Some (JStr s)) = True"
| "is_string _ = False"

fun string_value :: "json option \<Rightarrow> jsstring" where
  "string_value (Some (JStr s)) = s"
| "string_value _ = []"

text \<open>The code units that \<open>String.prototype.trim\<close> strips: white space and line
  terminators.\<close>

definition is_js_whitespace :: "nat \<Rightarrow> bool" where
  "is_js_whitespace c =
     (c \<in> set [9, 10, 11, 12, 13, 32, 160, 5760, 8232, 8233, 8239, 8287, 12288, 65279]
      \<or> (8192 \<le> c \<and> c \<le> 8202))"

definition trim :: "jsstring \<Rightarrow> jsstring" where
  "trim s = rev (dropWhile is_js_whitespace (rev (dropWhile is_js_whitespace s)))"

text \<open>The sentinel strings of the source, as code units.\<close>

definition NAME_SENTINEL :: jsstring where
  "NAME_SENTINEL = [51060, 47492, 32, 50630, 51020]"

definition CLASS_SENTINEL :: jsstring where
  "CLASS_SENTINEL = [48152, 32, 51221, 48372, 32, 50630, 51020]"

definition NO_FEEDBACK :: jsstring where
  "NO_FEEDBACK = [54588, 46300, 48177, 51060, 32, 50630, 49845, 45768, 45796, 46]"

text \<open>The test
  \<^verbatim>\<open>!v || typeof v !== 'string' || v.trim() === ''\<close>
  that both the name and the class go through.\<close>

definition missing_or_blank :: "json option \<Rightarrow> bool" where
  "missing_or_blank v = (\<not> truthy v \<or> \<not> is_string v \<or> trim (string_value v) = [])"

text \<open>
  The object \<open>gradeSubmission\<close> returns. The cast \<open>as GradingResult\<close> checks nothing, so
  \<open>feedback\<close> and the elements of \<open>scores\<close> are whatever the payload held.
\<close>

record ReturnedResult =
  ret_student_name :: jsstring
  ret_student_class :: jsstring
  ret_total_score :: jsnum
  ret_feedback :: json
  ret_scores :: "json list"
  ret_hasOCRIssues :: bool

text \<open>The statements between \<open>JSON.parse\<close> and \<open>return\<close>. Reading a property of \<open>null\<close>
  throws a \<open>TypeError\<close>.\<close>

definition normalise :: "json \<Rightarrow> thrown + ReturnedResult" where
  "normalise rawResult =
     (if rawResult = JNull then Inl (Error_obj (js ''TypeError''))
      else
        let name_bad = missing_or_blank (get_prop rawResult (js ''student_name''));
            class_bad = missing_or_blank (get_prop rawResult (js ''student_class''))
        in Inr
          \<lparr>ret_student_name =
             (if name_bad then NAME_SENTINEL
              else string_value (get_prop rawResult (js ''student_name''))),
           ret_student_class =
             (if class_bad then CLASS_SENTINEL
              else string_value (get_prop rawResult (js ''student_class''))),
           ret_total_score =
             (case get_prop rawResult (js ''total_score'') of Some (JNum n) \<Rightarrow> n | _ \<Rightarrow> 0),
           ret_feedback =
             (case get_prop rawResult (js ''feedback'') of
                None \<Rightarrow> JStr NO_FEEDBACK
              | Some v \<Rightarrow> if truthy (Some v) then v else JStr NO_FEEDBACK),
           ret_scores =
             (case get_prop rawResult (js ''scores'') of Some (JArr xs) \<Rightarrow> xs | _ \<Rightarrow> []),
           ret_hasOCRIssues = (name_bad \<or> class_bad)\<rparr>)"

text \<open>
  What reading the files and calling the model gives: a rejection, or a response whose
  \<open>text\<close> may be undefined.
\<close>

datatype api_outcome = Rejects thrown | Responds "jsstring option"

definition EMPTY_RESPONSE :: jsstring where
  "EMPTY_RESPONSE = js ''Empty response from model''"

definition PARSE_FAILED :: jsstring where
  "PARSE_FAILED = js ''Failed to parse grading results from model response.''"

text \<open>\<open>JSON_parse\<close> is the runtime's \<open>JSON.parse\<close> (\<open>None\<close> when it throws a
  \<open>SyntaxError\<close>), \<open>generateContent\<close> the file reads and the model call.\<close>

definition gradeSubmission ::
  "(jsstring \<Rightarrow> json option) \<Rightarrow> (File \<Rightarrow> File list \<Rightarrow> GradingModel \<Rightarrow> api_outcome)
     \<Rightarrow> File \<Rightarrow> File list \<Rightarrow> GradingModel \<Rightarrow> thrown + ReturnedResult" where
  "gradeSubmission JSON_parse generateContent referenceFile studentFiles modelName =
     (case generateContent referenceFile studentFiles modelName of
        Rejects e \<Rightarrow> Inl e
      | Responds None \<Rightarrow> Inl (Error_obj EMPTY_RESPONSE)
      | Responds (Some text) \<Rightarrow>
          if text = [] then Inl (Error_obj EMPTY_RESPONSE)
          else
            (case JSON_parse text of
               None \<Rightarrow> Inl (Error_obj PARSE_FAILED)
             | Some rawResult \<Rightarrow>
                 (case normalise rawResult of
                    Inl e \<Rightarrow> Inl (Error_obj PARSE_FAILED)
                  | Inr r \<Rightarrow> Inr r)))"

section \<open>Page rasteriser (pdfUtils, convertPdfToImages)\<close>

text \<open>
  The PDF library and the canvas are outside the program. What they do for one page is one
  of: \<open>getPage\<close> rejects, \<open>getContext('2d')\<close> gives \<open>null\<close>, \<open>render\<close> rejects,
  \<open>toBlob\<close> hands \<open>null\<close> to its callback, or \<open>toBlob\<close> hands over the encoded image.
  Loading the document either rejects or gives the pages, \<open>numPages\<close> being their number.
\<close>

datatype page_render =
    GetPage_rejects thrown
  | Context_null
  | Render_rejects thrown
  | Blob_null
  | Blob_ok "nat list"

datatype pdf_load = Load_rejects thrown | Loaded "page_render list"

text \<open>The loop \<^verbatim>\<open>for (let i = 1; i <= pdf.numPages; i++)\<close>: \<open>i\<close> is the page number,
  the list holds the pages from \<open>i\<close> on, \<open>imageFiles\<close> is the array built so far.\<close>

fun render_pages :: "jsstring \<Rightarrow> nat \<Rightarrow> page_render list \<Rightarrow> File list \<Rightarrow> thrown + File list" where
  "render_pages pdfName i [] imageFiles = Inr imageFiles"
| "render_pages pdfName i (pg # rest) imageFiles =
     (case pg of
        GetPage_rejects e \<Rightarrow> Inl e
      | Context_null \<Rightarrow> Inl (Error_obj (js ''Could not create canvas context''))
      | Render_rejects e \<Rightarrow> Inl e
      | Blob_null \<Rightarrow> render_pages pdfName (i + 1) rest imageFiles
      | Blob_ok b \<Rightarrow>
          render_pages pdfName (i + 1) rest
            (imageFiles @
             [\<lparr>name = replace_first (js ''.pdf'') [] pdfName @ js ''_page_'' @ string_of_nat i
                      @ js ''.jpg'',
               type = js ''image/jpeg'', blob = b\<rparr>]))"

definition convertPdfToImages :: "(File \<Rightarrow> pdf_load) \<Rightarrow> File \<Rightarrow> thrown + File list" where
  "convertPdfToImages pdfjs pdfFile =
     (case pdfjs pdfFile of
        Load_rejects e \<Rightarrow> Inl e
      | Loaded pages \<Rightarrow> render_pages (name pdfFile) 1 pages [])"

section \<open>Student segmentation (App.tsx, the loop of handleFileSelect)\<close>

text \<open>
  The loop of \<open>handleFileSelect\<close> that cuts the rasterised pages into submissions:
  \<^verbatim>\<open>for (let i = 0; i < images.length; i += pagesPerStudent) { ... }\<close>.
  \<open>uuidv4\<close> is the supply of identifiers: \<open>uuidv4 k\<close> is the identifier drawn for the
  \<open>k\<close>-th record pushed. With \<open>pagesPerStudent = 0\<close> the loop of the source never ends,
  so the model is a partial function and \<open>None\<close> stands for not returning.
\<close>

partial_function (option) segment_loop ::
  "(nat \<Rightarrow> jsstring) \<Rightarrow> nat \<Rightarrow> File list \<Rightarrow> nat \<Rightarrow> StudentSubmission list
     \<Rightarrow> StudentSubmission list option" where
  "segment_loop uuidv4 pagesPerStudent images i newSubmissions =
     (if i < length images then
        (let studentImages = slice images i (i + pagesPerStudent) in
         segment_loop uuidv4 pagesPerStudent images (i + pagesPerStudent)
           (if length studentImages > 0
            then newSubmissions @
                 [\<lparr>id' = uuidv4 (length newSubmissions), files = studentImages,
                   status = pending, result = None, errorMsg = None\<rparr>]
            else newSubmissions))
      else Some newSubmissions)"

definition segment ::
  "(nat \<Rightarrow> jsstring) \<Rightarrow> nat \<Rightarrow> File list \<Rightarrow> StudentSubmission list option" where
  "segment uuidv4 pagesPerStudent images = segment_loop uuidv4 pagesPerStudent images 0 []"

section \<open>Application state and handlers (App.tsx)\<close>

record AppState =
  currentStep :: AppStep
  referenceFile :: "File option"
  submissions :: "StudentSubmission list"
  model :: GradingModel
  isGrading :: bool
  toastMessage :: "jsstring option"
  isProcessingPdf :: bool
  stagedFiles :: "File list"
  isBulkMode :: bool
  pagesPerStudent :: nat
  showDevSettings :: bool

definition initial_state :: AppState where
  "initial_state =
     \<lparr>currentStep = SETUP, referenceFile = None, submissions = [],
      model = gemini_3_flash_preview, isGrading = False, toastMessage = None,
      isProcessingPdf = False, stagedFiles = [], isBulkMode = False, pagesPerStudent = 1,
      showDevSettings = False\<rparr>"

text \<open>The Korean literals of the toasts, as code units.\<close>

definition TOAST_BULK_PDF_ONLY :: jsstring where
  "TOAST_BULK_PDF_ONLY =
     [45824, 47049, 32, 50629, 47196, 46300, 32, 47784, 46300, 45716, 32, 80, 68, 70, 32,
      54028, 51068, 47564, 32, 51648, 50896, 54633, 45768, 45796, 46]"

definition TOAST_PDF_DONE_PREFIX :: jsstring where
  "TOAST_PDF_DONE_PREFIX = [80, 68, 70, 32, 52376, 47532, 32, 50756, 47308, 33, 32, 52509, 32]"

definition TOAST_PDF_DONE_SUFFIX :: jsstring where
  "TOAST_PDF_DONE_SUFFIX =
     [47749, 51032, 32, 54617, 49373, 32, 45813, 50504, 51060, 32, 52628, 44032, 46104, 50632,
      49845, 45768, 45796, 46]"

definition TOAST_PDF_ERROR :: jsstring where
  "TOAST_PDF_ERROR =
     [80, 68, 70, 32, 52376, 47532, 32, 51473, 32, 50724, 47448, 44032, 32, 48156, 49373,
      54664, 49845, 45768, 45796, 46, 32, 45796, 49884, 32, 49884, 46020, 54644, 51452, 49464,
      50836, 46]"

definition TOAST_OCR_ISSUES :: jsstring where
  "TOAST_OCR_ISSUES =
     [51068, 48512, 32, 54617, 49373, 51032, 32, 51060, 47492, 51060, 45208, 32, 48152, 32,
      51221, 48372, 47484, 32, 51069, 51648, 32, 47803, 54664, 49845, 45768, 45796, 46, 32,
      44592, 48376, 44050, 51004, 47196, 32, 49444, 51221, 46104, 50632, 51004, 45768, 32,
      54869, 51064, 54644, 51452, 49464, 50836, 46]"

text \<open>\<open>showToast\<close> sets the message; the timer that clears it six seconds later is not
  part of the model.\<close>

definition showToast :: "jsstring \<Rightarrow> AppState \<Rightarrow> AppState" where
  "showToast msg st = st\<lparr>toastMessage := Some msg\<rparr>"

definition handleReferenceSelect :: "File list option \<Rightarrow> AppState \<Rightarrow> AppState" where
  "handleReferenceSelect fs st =
     (case fs of
        None \<Rightarrow> st
      | Some [] \<Rightarrow> st
      | Some (file # _) \<Rightarrow> st\<lparr>referenceFile := Some file\<rparr>)"


subsection \<open>File selection (handleFileSelect)\<close>

definition handleFileSelect ::
  "(File \<Rightarrow> pdf_load) \<Rightarrow> (nat \<Rightarrow> jsstring) \<Rightarrow> File list option \<Rightarrow> AppState \<Rightarrow> AppState option"
  where
  "handleFileSelect pdfjs uuidv4 fs st =
     (case fs of
        None \<Rightarrow> Some st
      | Some [] \<Rightarrow> Some st
      | Some (file # others) \<Rightarrow>
          if isBulkMode st then
            (if type file \<noteq> js ''application/pdf'' then Some (showToast TOAST_BULK_PDF_ONLY st)
             else
               (case convertPdfToImages pdfjs file of
                  Inl e \<Rightarrow> Some ((showToast TOAST_PDF_ERROR st)\<lparr>isProcessingPdf := False\<rparr>)
                | Inr images \<Rightarrow>
                    (case segment uuidv4 (pagesPerStudent st) images of
                       None \<Rightarrow> None
                     | Some newSubmissions \<Rightarrow>
                         Some ((showToast
                                  (TOAST_PDF_DONE_PREFIX @ string_of_nat (length newSubmissions)
                                     @ TOAST_PDF_DONE_SUFFIX)
                                  (st\<lparr>submissions := submissions st @ newSubmissions\<rparr>))
                               \<lparr>isProcessingPdf := False\<rparr>))))
          else Some (st\<lparr>stagedFiles := stagedFiles st @ (file # others)\<rparr>))"

definition addStudentToQueue :: "jsstring \<Rightarrow> AppState \<Rightarrow> AppState" where
  "addStudentToQueue uuid st =
     (if length (stagedFiles st) = 0 then st
      else st\<lparr>submissions :=
                 submissions st @
                 [\<lparr>id' = uuid, files = stagedFiles st, status = pending, result = None,
                   errorMsg = None\<rparr>],
               stagedFiles := []\<rparr>)"





subsection \<open>The grading run (startGrading)\<close>

text \<open>
  \<open>gradeSubmission\<close> is awaited inside the loop. Its outcome is outside the program, so the
  run takes it as a parameter: \<open>grade i ref fs m\<close> is what the call issued for record \<open>i\<close>
  settles to, \<open>Inl\<close> a rejection and \<open>Inr\<close> the result. The run is recorded as the sequence
  of the state setters and grading calls it makes, in program order.
\<close>

type_synonym grader = "nat \<Rightarrow> File \<Rightarrow> File list \<Rightarrow> GradingModel \<Rightarrow> thrown + GradingResult"

datatype event =
    SetIsGrading bool
  | SetCurrentStep AppStep
  | SetToastMessage "jsstring option"
  | SetSubmissions "StudentSubmission list"
  | GradeSubmission nat File "File list" GradingModel

type_synonym loop_state = "StudentSubmission list \<times> jsstring option \<times> event list"

definition error_message :: "thrown \<Rightarrow> jsstring" where
  "error_message e = (case e of Error_obj m \<Rightarrow> m | Other_thrown \<Rightarrow> js ''Unknown error'')"

text \<open>One pass through the body of the \<open>for\<close> loop, for index \<open>i\<close>.\<close>

definition grade_step :: "grader \<Rightarrow> File \<Rightarrow> GradingModel \<Rightarrow> nat \<Rightarrow> loop_state \<Rightarrow> loop_state" where
  "grade_step grade ref m i s =
     (case s of (newSubmissions, toast, trace) \<Rightarrow>
        let ns1 = newSubmissions[i := (newSubmissions ! i)\<lparr>status := processing\<rparr>];
            log1 = trace @ [SetSubmissions ns1, GradeSubmission i ref (files (ns1 ! i)) m]
        in case grade i ref (files (ns1 ! i)) m of
             Inr res \<Rightarrow>
               let ocr = (hasOCRIssues res = Some True);
                   ns2 = ns1[i := (ns1 ! i)\<lparr>status := completed, result := Some res\<rparr>]
               in (ns2,
                   (if ocr then Some TOAST_OCR_ISSUES else toast),
                   (if ocr then log1 @ [SetToastMessage (Some TOAST_OCR_ISSUES)] else log1)
                     @ [SetSubmissions ns2])
           | Inl err \<Rightarrow>
               let ns2 = ns1[i := (ns1 ! i)\<lparr>status := error,
                                             errorMsg := Some (error_message err)\<rparr>]
               in (ns2, toast, log1 @ [SetSubmissions ns2]))"

lemma length_grade_step [simp]:
  "length (fst (grade_step grade ref m i s)) = length (fst s)"
  by (cases s) (simp add: grade_step_def Let_def split: sum.splits)

function grading_loop :: "grader \<Rightarrow> File \<Rightarrow> GradingModel \<Rightarrow> nat \<Rightarrow> loop_state \<Rightarrow> loop_state" where
  "grading_loop grade ref m i s =
     (if i < length (fst s) then grading_loop grade ref m (i + 1) (grade_step grade ref m i s)
      else s)"
  by pat_completeness auto
termination
  by (relation "measure (\<lambda>(grade, ref, m, i, s). length (fst s) - i)") auto

declare grading_loop.simps [simp del]

definition startGrading :: "grader \<Rightarrow> AppState \<Rightarrow> AppState \<times> event list" where
  "startGrading grade st =
     (case referenceFile st of
        None \<Rightarrow> (st, [])
      | Some ref \<Rightarrow>
          if length (submissions st) = 0 then (st, [])
          else
            (case grading_loop grade ref (model st) 0
                    (submissions st, None,
                     [SetIsGrading True, SetCurrentStep GRADING, SetToastMessage None]) of
               (newSubmissions, toast, trace) \<Rightarrow>
                 (st\<lparr>isGrading := False, currentStep := GRADING, toastMessage := toast,
                     submissions := newSubmissions\<rparr>,
                  trace @ [SetIsGrading False])))"

text \<open>The queue snapshots a run publishes, in order.\<close>

fun snapshots :: "event list \<Rightarrow> StudentSubmission list list" where
  "snapshots [] = []"
| "snapshots (SetSubmissions ns # es) = ns # snapshots es"
| "snapshots (_ # es) = snapshots es"

text \<open>The progress bar of the results step:
  \<^verbatim>\<open>submissions.filter(s => s.status === 'completed' || s.status === 'error').length / submissions.length\<close>.
  (For an empty queue the source divides zero by zero; the statements about the ratio are
  about non-empty queues.)\<close>

definition progress :: "StudentSubmission list \<Rightarrow> rat" where
  "progress subs =
     of_nat (length (filter (\<lambda>s. status s = completed \<or> status s = error) subs))
       / of_nat (length subs)"

subsection \<open>Buttons outside the handlers\<close>

text \<open>The inline \<open>onClick\<close> handlers of the page, each with the condition under which the
  page renders (and enables) its button.\<close>

definition onRemoveReference :: "AppState \<Rightarrow> AppState" where
  "onRemoveReference st =
     (if referenceFile st \<noteq> None then st\<lparr>referenceFile := None, currentStep := SETUP\<rparr> else st)"

definition onNextToUpload :: "AppState \<Rightarrow> AppState" where
  "onNextToUpload st =
     (if currentStep st = SETUP \<and> referenceFile st \<noteq> None
      then st\<lparr>currentStep := UPLOAD_STUDENTS\<rparr> else st)"

definition onBackToSetup :: "AppState \<Rightarrow> AppState" where
  "onBackToSetup st =
     (if currentStep st = UPLOAD_STUDENTS then st\<lparr>currentStep := SETUP\<rparr> else st)"

definition onStartGradingClick :: "grader \<Rightarrow> AppState \<Rightarrow> AppState" where
  "onStartGradingClick grade st =
     (if currentStep st = UPLOAD_STUDENTS \<and> length (submissions st) \<noteq> 0
      then fst (startGrading grade st) else st)"

definition onNewGrading :: "AppState \<Rightarrow> AppState" where
  "onNewGrading st =
     (if currentStep st = GRADING \<and> \<not> isGrading st
      then st\<lparr>submissions := [], currentStep := UPLOAD_STUDENTS, isBulkMode := False,
              pagesPerStudent := 1\<rparr>
      else st)"

section \<open>Results table (ResultsTable): inline edit and export\<close>

definition completedSubmissions :: "StudentSubmission list \<Rightarrow> StudentSubmission list" where
  "completedSubmissions subs = filter (\<lambda>s. status s = completed \<and> result s \<noteq> None) subs"


text \<open>\<open>Set.prototype.add\<close> on a set kept in insertion order.\<close>

definition set_add :: "'a \<Rightarrow> 'a list \<Rightarrow> 'a list" where
  "set_add x xs = (if x \<in> set xs then xs else xs @ [x])"

definition allQNums :: "StudentSubmission list \<Rightarrow> jsnum list" where
  "allQNums completed_subs =
     foldl (\<lambda>acc sub.
              case result sub of
                None \<Rightarrow> acc
              | Some r \<Rightarrow> foldl (\<lambda>acc' s. set_add (q_num s) acc') acc (scores r))
       [] completed_subs"

text \<open>\<^verbatim>\<open>Array.from(allQNums).sort((a, b) => a - b)\<close>.\<close>

definition sortedQNums :: "StudentSubmission list \<Rightarrow> jsnum list" where
  "sortedQNums completed_subs = sort (allQNums completed_subs)"

fun js_join :: "jsstring \<Rightarrow> jsstring list \<Rightarrow> jsstring" where
  "js_join sep [] = []"
| "js_join sep [x] = x"
| "js_join sep (x # y # ys) = x @ sep @ js_join sep (y # ys)"

definition replace_all :: "nat \<Rightarrow> jsstring \<Rightarrow> jsstring \<Rightarrow> jsstring" where
  "replace_all c rep s = concat (map (\<lambda>x. if x = c then rep else [x]) s)"

text \<open>The header cells; \<open>num_str\<close> is the runtime's conversion of a number to a string.\<close>

definition export_headers :: "(jsnum \<Rightarrow> jsstring) \<Rightarrow> jsnum list \<Rightarrow> jsstring list" where
  "export_headers num_str qs =
     [js ''Class'', js ''Name'', js ''Total Score'']
     @ concat (map (\<lambda>q. [js ''Q'' @ num_str q @ js '' Ans'', js ''Q'' @ num_str q @ js '' Score'']) qs)
     @ [js ''Feedback'']"

text \<open>\<open>new Map(res.scores.map(...))\<close>: of two entries with one key the later one stays.\<close>

definition scoresMap :: "GradingResult \<Rightarrow> jsnum \<Rightarrow> (jsnum \<times> jsstring) option" where
  "scoresMap res =
     map_of (rev (map (\<lambda>s. (q_num s,
                            (score s, if student_answer s = [] then js ''-'' else student_answer s)))
                   (scores res)))"

definition qCols :: "(jsnum \<Rightarrow> jsstring) \<Rightarrow> GradingResult \<Rightarrow> jsnum list \<Rightarrow> jsstring list" where
  "qCols num_str res qs =
     concat (map (\<lambda>q. case scoresMap res q of
                        Some (sc, ans) \<Rightarrow> [ans, num_str sc]
                      | None \<Rightarrow> [js ''-'', js ''0'']) qs)"

definition quoted :: "jsstring \<Rightarrow> jsstring" where
  "quoted s = [34] @ s @ [34]"

definition csv_row_cells :: "(jsnum \<Rightarrow> jsstring) \<Rightarrow> jsnum list \<Rightarrow> GradingResult \<Rightarrow> jsstring list" where
  "csv_row_cells num_str qs res =
     [quoted (case student_class res of None \<Rightarrow> [] | Some c \<Rightarrow> c),
      quoted (student_name res),
      num_str (total_score res)]
     @ qCols num_str res qs
     @ [quoted (replace_all 34 [34, 34] (feedback res))]"

text \<open>\<open>getExportData\<close>: the header line and the row lines. A completed submission has a
  result, so the \<open>None\<close> case of a row is never taken.\<close>

definition getExportData ::
  "(jsnum \<Rightarrow> jsstring) \<Rightarrow> jsstring \<Rightarrow> StudentSubmission list \<Rightarrow> jsstring \<times> jsstring" where
  "getExportData num_str separator subs =
     (let qs = sortedQNums (completedSubmissions subs);
          headers = export_headers num_str qs;
          rows = map (\<lambda>sub. case result sub of
                              None \<Rightarrow> []
                            | Some res \<Rightarrow> js_join separator (csv_row_cells num_str qs res))
                   (completedSubmissions subs)
      in (js_join separator headers, js_join [10] rows))"

text \<open>\<open>handleExportCSV\<close>: the text of the downloaded file, \<open>None\<close> when nothing is
  exported.\<close>

definition handleExportCSV :: "(jsnum \<Rightarrow> jsstring) \<Rightarrow> StudentSubmission list \<Rightarrow> jsstring option" where
  "handleExportCSV num_str subs =
     (if length (completedSubmissions subs) = 0 then None
      else
        (case getExportData num_str (js '','') subs of
           (headerStr, rowStr) \<Rightarrow> Some ([65279] @ js_join [10] [headerStr, rowStr])))"

definition tsv_row_cells :: "(jsnum \<Rightarrow> jsstring) \<Rightarrow> jsnum list \<Rightarrow> GradingResult \<Rightarrow> jsstring list" where
  "tsv_row_cells num_str qs res =
     [(case student_class res of None \<Rightarrow> [] | Some c \<Rightarrow> c),
      student_name res,
      num_str (total_score res)]
     @ qCols num_str res qs
     @ [replace_all 9 [32] (feedback res)]"

text \<open>\<open>handleCopyToClipboard\<close>: the text handed to the clipboard, \<open>None\<close> when nothing is
  copied. It computes the question numbers and the headers on its own.\<close>

definition handleCopyToClipboard ::
  "(jsnum \<Rightarrow> jsstring) \<Rightarrow> StudentSubmission list \<Rightarrow> jsstring option" where
  "handleCopyToClipboard num_str subs =
     (if length (completedSubmissions subs) = 0 then None
      else
        (let qs = sort (allQNums (completedSubmissions subs));
             headers =
               [js ''Class'', js ''Name'', js ''Total Score'']
               @ concat (map (\<lambda>q. [js ''Q'' @ num_str q @ js '' Ans'',
                                    js ''Q'' @ num_str q @ js '' Score'']) qs)
               @ [js ''Feedback''];
             rows = map (\<lambda>sub. case result sub of
                                 None \<Rightarrow> []
                               | Some res \<Rightarrow> js_join [9] (tsv_row_cells num_str qs res))
                      (completedSubmissions subs)
         in Some (js_join [10] (js_join [9] headers # rows))))"

section \<open>Definitions used in the statements\<close>

text \<open>The partition the specification describes: consecutive chunks of \<open>p\<close> elements, the
  last one holding the remainder.\<close>

function chunks :: "nat \<Rightarrow> 'a list \<Rightarrow> 'a list list" where
  "chunks p xs = (if p = 0 \<or> xs = [] then [] else take p xs # chunks p (drop p xs))"
  by pat_completeness auto
termination
  by (relation "measure (\<lambda>(p, xs). length xs)") auto

declare chunks.simps [simp del]

definition fresh_submission :: "jsstring \<Rightarrow> File list \<Rightarrow> StudentSubmission" where
  "fresh_submission i fs =
     \<lparr>id' = i, files = fs, status = pending, result = None, errorMsg = None\<rparr>"

text \<open>The records made of a list of chunks, the \<open>k\<close>-th identifier of the supply first.\<close>

fun mk_subs :: "(nat \<Rightarrow> jsstring) \<Rightarrow> nat \<Rightarrow> File list list \<Rightarrow> StudentSubmission list" where
  "mk_subs u k [] = []"
| "mk_subs u k (c # cs) = fresh_submission (u k) c # mk_subs u (Suc k) cs"

text \<open>A page image, for the concrete runs below.\<close>

definition page :: "nat \<Rightarrow> File" where
  "page n =
     \<lparr>name = js ''scan_page_'' @ string_of_nat n @ js ''.jpg'', type = js ''image/jpeg'',
      blob = [n]\<rparr>"

text \<open>What a record becomes once its grading call has settled.\<close>

definition settle :: "grader \<Rightarrow> File \<Rightarrow> GradingModel \<Rightarrow> nat \<Rightarrow> StudentSubmission \<Rightarrow> StudentSubmission" where
  "settle grade ref m i s =
     (case grade i ref (files s) m of
        Inr res \<Rightarrow> s\<lparr>status := completed, result := Some res\<rparr>
      | Inl err \<Rightarrow> s\<lparr>status := error, errorMsg := Some (error_message err)\<rparr>)"

text \<open>The queue once the records before \<open>k\<close> have settled, the others untouched.\<close>

definition settled_snapshot ::
  "grader \<Rightarrow> File \<Rightarrow> GradingModel \<Rightarrow> StudentSubmission list \<Rightarrow> nat \<Rightarrow> StudentSubmission list" where
  "settled_snapshot grade ref m subs k =
     map (\<lambda>j. if j < k then settle grade ref m j (subs ! j) else subs ! j) [0..<length subs]"

text \<open>The queue while record \<open>i\<close> is being graded.\<close>

definition processing_snapshot ::
  "grader \<Rightarrow> File \<Rightarrow> GradingModel \<Rightarrow> StudentSubmission list \<Rightarrow> nat \<Rightarrow> StudentSubmission list" where
  "processing_snapshot grade ref m subs i =
     map (\<lambda>j. if j < i then settle grade ref m j (subs ! j)
              else if j = i then (subs ! j)\<lparr>status := processing\<rparr>
              else subs ! j) [0..<length subs]"

definition ocr_issue :: "grader \<Rightarrow> File \<Rightarrow> GradingModel \<Rightarrow> StudentSubmission list \<Rightarrow> nat \<Rightarrow> bool" where
  "ocr_issue grade ref m subs i =
     (case grade i ref (files (subs ! i)) m of
        Inr res \<Rightarrow> hasOCRIssues res = Some True
      | Inl err \<Rightarrow> False)"

text \<open>The events of the loop body for record \<open>i\<close>, in program order.\<close>

definition record_events ::
  "grader \<Rightarrow> File \<Rightarrow> GradingModel \<Rightarrow> StudentSubmission list \<Rightarrow> nat \<Rightarrow> event list" where
  "record_events grade ref m subs i =
     [SetSubmissions (processing_snapshot grade ref m subs i),
      GradeSubmission i ref (files (subs ! i)) m]
     @ (if ocr_issue grade ref m subs i then [SetToastMessage (Some TOAST_OCR_ISSUES)] else [])
     @ [SetSubmissions (settled_snapshot grade ref m subs (Suc i))]"

definition toast_after ::
  "grader \<Rightarrow> File \<Rightarrow> GradingModel \<Rightarrow> StudentSubmission list \<Rightarrow> nat \<Rightarrow> nat \<Rightarrow> jsstring option \<Rightarrow> jsstring option" where
  "toast_after grade ref m subs i n toast =
     (if list_ex (ocr_issue grade ref m subs) [i..<n] then Some TOAST_OCR_ISSUES else toast)"

text \<open>Concrete inputs for the runs below.\<close>

definition answer_key :: File where
  "answer_key = \<lparr>name = js ''key.png'', type = js ''image/png'', blob = [0]\<rparr>"

definition sample_result :: "nat \<Rightarrow> GradingResult" where
  "sample_result n =
     \<lparr>student_name = js ''Kim'', student_class = Some (js ''3-2''), scores = [],
      total_score = of_nat n, feedback = js ''ok'', hasOCRIssues = Some False\<rparr>"

definition fails_second :: grader where
  "fails_second i ref fs m =
     (if i = 1 then Inl (Error_obj (js ''Empty response from model'')) else Inr (sample_result i))"

text \<open>The second grading call rejects with a value that is not an \<open>Error\<close>.\<close>

definition rejects_second :: grader where
  "rejects_second i ref fs m = (if i = 1 then Inl Other_thrown else Inr (sample_result i))"

definition three_pending :: AppState where
  "three_pending =
     initial_state\<lparr>currentStep := UPLOAD_STUDENTS, referenceFile := Some answer_key,
       submissions := [fresh_submission (js ''a'') [page 1], fresh_submission (js ''b'') [page 2],
                       fresh_submission (js ''c'') [page 3]]\<rparr>"


text \<open>A second run over a queue that was graded once: the reference file is removed, chosen
  again, and grading is started again from the upload step.\<close>

definition always_ok :: grader where
  "always_ok i ref fs m = Inr (sample_result i)"


definition no_pdf :: "File \<Rightarrow> pdf_load" where
  "no_pdf f = Load_rejects Other_thrown"

definition upload :: "File list \<Rightarrow> AppState \<Rightarrow> AppState" where
  "upload fs st =
     (case handleFileSelect no_pdf string_of_nat (Some fs) st of Some st' \<Rightarrow> st' | None \<Rightarrow> st)"

definition queued_two :: AppState where
  "queued_two =
     addStudentToQueue (js ''b'') (upload [page 2]
       (addStudentToQueue (js ''a'') (upload [page 1]
         (onNextToUpload (handleReferenceSelect (Some [answer_key]) initial_state)))))"

definition regrade_ready :: "grader \<Rightarrow> AppState" where
  "regrade_ready g =
     onNextToUpload (handleReferenceSelect (Some [answer_key])
       (onRemoveReference (onStartGradingClick g queued_two)))"

text \<open>In the words of the specification: the field is missing, or is not a string, or is a
  string that is empty or holds white space only.\<close>

fun absent_or_blank :: "json option \<Rightarrow> bool" where
  "absent_or_blank None = True"
| "absent_or_blank (Some (JStr s)) = list_all is_js_whitespace s"
| "absent_or_blank (Some v) = True"

text \<open>A stand-in for \<open>JSON.parse\<close> on the few texts of the concrete runs below.\<close>

definition parse_literals :: "jsstring \<Rightarrow> json option" where
  "parse_literals t =
     (if t = js ''null'' then Some JNull
      else if t = js ''5'' then Some (JNum 5)
      else if t = js ''{\"feedback\":7}'' then Some (JObj [(js ''feedback'', JNum 7)])
      else if t = js ''{\"student_name\":\" \",\"total_score\":\"9\"}''
        then Some (JObj [(js ''student_name'', JStr (js '' '')), (js ''total_score'', JStr (js ''9''))])
      else if t = js ''{\"student_name\":\"Kim\",\"student_class\":\"3-2\"}''
        then Some (JObj [(js ''student_name'', JStr (js ''Kim'')),
                         (js ''student_class'', JStr (js ''3-2''))])
      else None)"

definition responds :: "jsstring \<Rightarrow> File \<Rightarrow> File list \<Rightarrow> GradingModel \<Rightarrow> api_outcome" where
  "responds t ref fs m = Responds (Some t)"

definition scan_pdf :: File where
  "scan_pdf = \<lparr>name = js ''scan.pdf'', type = js ''application/pdf'', blob = [37, 80, 68, 70]\<rparr>"

text \<open>A three-page document whose second page the canvas cannot encode.\<close>

definition second_blob_null :: "File \<Rightarrow> pdf_load" where
  "second_blob_null f = Loaded [Blob_ok [1], Blob_null, Blob_ok [3]]"



text \<open>The page outcomes at which the loop throws, and the ones that give a file.\<close>

fun throws :: "page_render \<Rightarrow> bool" where
  "throws (GetPage_rejects e) = True"
| "throws Context_null = True"
| "throws (Render_rejects e) = True"
| "throws Blob_null = False"
| "throws (Blob_ok b) = False"

fun encoded :: "page_render \<Rightarrow> bool" where
  "encoded (Blob_ok b) = True"
| "encoded _ = False"

text \<open>\<open>String.prototype.split\<close> at a separator of one code unit.\<close>

fun split_on :: "nat \<Rightarrow> jsstring \<Rightarrow> jsstring list" where
  "split_on c [] = [[]]"
| "split_on c (x # xs) =
     (if x = c then [] # split_on c xs
      else (case split_on c xs of [] \<Rightarrow> [[x]] | y # ys \<Rightarrow> (x # y) # ys))"


text \<open>Graded records, for the concrete exports below.\<close>

definition score_item :: "jsnum \<Rightarrow> jsnum \<Rightarrow> string \<Rightarrow> ScoreItem" where
  "score_item q sc ans = \<lparr>q_num = q, score = sc, student_answer = js ans, reason = []\<rparr>"

definition graded :: "jsstring \<Rightarrow> ScoreItem list \<Rightarrow> StudentSubmission" where
  "graded i items =
     \<lparr>id' = i, files = [page 1], status = completed,
      result = Some \<lparr>student_name = js ''Kim'', student_class = Some (js ''3-2''),
                     scores = items, total_score = 1, feedback = js ''ok'',
                     hasOCRIssues = Some False\<rparr>,
      errorMsg = None\<rparr>"

section \<open>Segmentation: the partition of the pages\<close>

lemma chunks_Nil [simp]: "chunks p [] = []"
  by (simp add: chunks.simps)

lemma chunks_step: "0 < p \<Longrightarrow> xs \<noteq> [] \<Longrightarrow> chunks p xs = take p xs # chunks p (drop p xs)"
  by (subst chunks.simps) simp

lemma concat_chunks: "0 < p \<Longrightarrow> concat (chunks p xs) = xs"
proof (induction p xs rule: chunks.induct)
  case (1 p xs)
  show ?case
  proof (cases "xs = []")
    case True
    then show ?thesis by simp
  next
    case False
    with 1 show ?thesis by (simp add: chunks_step)
  qed
qed

lemma small_div: "0 < (n::nat) \<Longrightarrow> n \<le> p \<Longrightarrow> (n + p - 1) div p = 1"
proof -
  assume a: "0 < n" "n \<le> p"
  then obtain m where m: "n = Suc m" by (cases n) auto
  with a have "m < p" by simp
  then show ?thesis using m by simp
qed

lemma big_div:
  "0 < (p::nat) \<Longrightarrow> p < n \<Longrightarrow> (n + p - 1) div p = Suc ((n - p + p - 1) div p)"
proof -
  assume a: "0 < p" "p < n"
  then obtain m where m: "n = Suc m + p"
    by (metis add.commute less_imp_Suc_add add_Suc_right add_Suc)
  then show ?thesis using a by simp
qed

lemma length_chunks: "0 < p \<Longrightarrow> length (chunks p xs) = (length xs + p - 1) div p"
proof (induction p xs rule: chunks.induct)
  case (1 p xs)
  show ?case
  proof (cases "xs = []")
    case True
    with 1(2) show ?thesis by simp
  next
    case False
    then have n: "0 < length xs" by simp
    have st: "chunks p xs = take p xs # chunks p (drop p xs)"
      using 1(2) False by (rule chunks_step)
    have ih: "length (chunks p (drop p xs)) = (length xs - p + p - 1) div p"
      using 1 False by simp
    show ?thesis
    proof (cases "length xs \<le> p")
      case True
      then have "drop p xs = []" by simp
      with st small_div[OF n True] show ?thesis by simp
    next
      case gt: False
      then have "p < length xs" by simp
      from big_div[OF 1(2) this] ih st show ?thesis by simp
    qed
  qed
qed

lemma chunks_nonempty: "0 < p \<Longrightarrow> xs \<noteq> [] \<Longrightarrow> chunks p xs \<noteq> []"
  by (simp add: chunks_step)

lemma chunks_inner_length:
  "0 < p \<Longrightarrow> Suc j < length (chunks p xs) \<Longrightarrow> length (chunks p xs ! j) = p"
proof (induction p xs arbitrary: j rule: chunks.induct)
  case (1 p xs)
  from 1(3) have ne: "xs \<noteq> []" by auto
  have st: "chunks p xs = take p xs # chunks p (drop p xs)"
    using 1(2) ne by (rule chunks_step)
  show ?case
  proof (cases j)
    case 0
    with 1(3) st have "chunks p (drop p xs) \<noteq> []" by auto
    then have "drop p xs \<noteq> []" by auto
    then have "p < length xs" by simp
    with 0 st show ?thesis by simp
  next
    case (Suc k)
    with 1(3) st have "Suc k < length (chunks p (drop p xs))" by simp
    with 1(1)[of k] 1(2) ne have "length (chunks p (drop p xs) ! k) = p" by simp
    with Suc st show ?thesis by simp
  qed
qed

lemma chunks_last_length:
  "0 < p \<Longrightarrow> xs \<noteq> [] \<Longrightarrow>
   length (last (chunks p xs)) = (if length xs mod p = 0 then p else length xs mod p)"
proof (induction p xs rule: chunks.induct)
  case (1 p xs)
  have st: "chunks p xs = take p xs # chunks p (drop p xs)"
    using 1(2,3) by (rule chunks_step)
  show ?case
  proof (cases "drop p xs = []")
    case True
    then have le: "length xs \<le> p" by simp
    have "0 < length xs" using 1(3) by simp
    with le have "(if length xs mod p = 0 then p else length xs mod p) = length xs"
      by (cases "length xs = p") auto
    with True st le show ?thesis by simp
  next
    case False
    then have lt: "p < length xs" by simp
    have "length (last (chunks p (drop p xs))) =
        (if length (drop p xs) mod p = 0 then p else length (drop p xs) mod p)"
      using 1 False by simp
    moreover have "length (drop p xs) mod p = length xs mod p"
      using lt by (simp add: le_mod_geq)
    moreover have "chunks p (drop p xs) \<noteq> []"
      using False 1(2) by (rule chunks_nonempty[rotated])
    ultimately show ?thesis using st by simp
  qed
qed

lemma chunks_single: "xs \<noteq> [] \<Longrightarrow> length xs \<le> p \<Longrightarrow> chunks p xs = [xs]"
  by (subst chunks.simps) (cases p; auto)

lemma length_mk_subs [simp]: "length (mk_subs u k cs) = length cs"
  by (induction cs arbitrary: k) simp_all

lemma files_mk_subs [simp]: "map files (mk_subs u k cs) = cs"
  by (induction cs arbitrary: k) (simp_all add: fresh_submission_def)

lemma mk_subs_append: "mk_subs u k (cs @ ds) = mk_subs u k cs @ mk_subs u (k + length cs) ds"
  by (induction cs arbitrary: k) simp_all

lemma mk_subs_pending:
  "r \<in> set (mk_subs u k cs) \<Longrightarrow> status r = pending \<and> result r = None \<and> errorMsg r = None"
  by (induction cs arbitrary: k) (auto simp: fresh_submission_def)

lemma segment_loop_chunks:
  "0 < p \<Longrightarrow>
   segment_loop u p images i (mk_subs u 0 cs) =
     Some (mk_subs u 0 (cs @ chunks p (drop i images)))"
proof (induction "length images - i" arbitrary: i cs rule: less_induct)
  case less
  show ?case
  proof (cases "i < length images")
    case False
    then show ?thesis by (subst segment_loop.simps) simp
  next
    case True
    then have ne: "drop i images \<noteq> []" by simp
    have sl: "slice images i (i + p) = take p (drop i images)"
      by (simp add: slice_def)
    have pos: "0 < length (take p (drop i images))"
      using True less.prems by simp
    have acc: "mk_subs u 0 cs @ [\<lparr>id' = u (length (mk_subs u 0 cs)), files = take p (drop i images),
                   status = pending, result = None, errorMsg = None\<rparr>]
        = mk_subs u 0 (cs @ [take p (drop i images)])"
      by (simp add: mk_subs_append fresh_submission_def)
    have dec: "length images - (i + p) < length images - i"
      using True less.prems by simp
    have "segment_loop u p images i (mk_subs u 0 cs) =
          segment_loop u p images (i + p) (mk_subs u 0 (cs @ [take p (drop i images)]))"
      apply (subst segment_loop.simps)
      using True pos acc by (simp add: sl Let_def)
    also have "\<dots> = Some (mk_subs u 0 ((cs @ [take p (drop i images)]) @ chunks p (drop (i + p) images)))"
      using less.hyps[OF dec less.prems] .
    also have "(cs @ [take p (drop i images)]) @ chunks p (drop (i + p) images)
         = cs @ chunks p (drop i images)"
      using chunks_step[OF less.prems ne] by (simp add: add.commute)
    finally show ?thesis .
  qed
qed

lemma segment_eq: "0 < p \<Longrightarrow> segment u p images = Some (mk_subs u 0 (chunks p images))"
  using segment_loop_chunks[of p u images 0 "[]"] by (simp add: segment_def)

lemma neg_div_ceil:
  fixes n p :: int
  assumes "0 < p" "0 \<le> n"
  shows "- ((- n) div p) = (n + p - 1) div p"
proof -
  define q where "q = (n + p - 1) div p"
  define r where "r = (n + p - 1) mod p"
  have eq: "n + p - 1 = p * q + r" by (simp add: q_def r_def)
  have r: "0 \<le> r" "r < p" using assms by (simp_all add: r_def)
  have "- n = p * (- q) + (p - 1 - r)" using eq by (simp add: algebra_simps)
  moreover have "0 \<le> p - 1 - r" "p - 1 - r < p" using r by simp_all
  ultimately have "(- n) div p = - q" by (rule int_div_pos_eq)
  then show ?thesis by (simp add: q_def)
qed

lemma ceil_div:
  assumes "0 < p"
  shows "int ((n + p - 1) div p) = \<lceil>real n / real p\<rceil>"
proof -
  have "\<lceil>real n / real p\<rceil> = \<lceil>real_of_int (int n) / real_of_int (int p)\<rceil>" by simp
  also have "\<dots> = - ((- int n) div int p)" by (rule ceiling_divide_eq_div)
  also have "\<dots> = (int n + int p - 1) div int p" using assms by (intro neg_div_ceil) simp_all
  also have "int n + int p - 1 = int (n + p - 1)" using assms by simp
  also have "int (n + p - 1) div int p = int ((n + p - 1) div p)" by (simp add: zdiv_int)
  finally show ?thesis by simp
qed

text \<open>
  Claim C2. For every positive \<open>p\<close> and every sequence of \<open>n\<close> page images the segmentation
  loop returns, and what it returns is \<open>\<lceil>n / p\<rceil>\<close> records, every one \<open>pending\<close>; every
  record but the last holds exactly \<open>p\<close> pages and the last holds \<open>n mod p\<close> pages (\<open>p\<close> when
  \<open>n mod p = 0\<close>); the page lists of the records, concatenated in record order, are the
  original sequence; no page gives no record, and a non-empty sequence shorter than \<open>p\<close>
  gives exactly one record holding all of it.
\<close>

theorem segment_partition:
  assumes "0 < p"
  shows "\<exists>recs. segment uuidv4 p images = Some recs
     \<and> int (length recs) = \<lceil>real (length images) / real p\<rceil>
     \<and> (\<forall>r \<in> set recs. status r = pending)
     \<and> (\<forall>j. Suc j < length recs \<longrightarrow> length (files (recs ! j)) = p)
     \<and> (recs \<noteq> [] \<longrightarrow>
          length (files (last recs)) =
            (if length images mod p = 0 then p else length images mod p))
     \<and> concat (map files recs) = images
     \<and> (images = [] \<longrightarrow> recs = [])
     \<and> (images \<noteq> [] \<and> length images < p \<longrightarrow> length recs = 1 \<and> files (recs ! 0) = images)"
proof -
  define recs where "recs = mk_subs uuidv4 0 (chunks p images)"
  have ret: "segment uuidv4 p images = Some recs"
    unfolding recs_def using assms by (rule segment_eq)
  have fs: "map files recs = chunks p images" by (simp add: recs_def)
  have len: "length recs = length (chunks p images)" by (simp add: recs_def)
  have c1: "int (length recs) = \<lceil>real (length images) / real p\<rceil>"
    using ceil_div[OF assms, of "length images"] length_chunks[OF assms, of images] len by simp
  have c2: "\<forall>r \<in> set recs. status r = pending"
    unfolding recs_def using mk_subs_pending by blast
  have nth: "files (recs ! j) = chunks p images ! j" if "j < length recs" for j
    using that fs by (metis nth_map)
  have c3: "\<forall>j. Suc j < length recs \<longrightarrow> length (files (recs ! j)) = p"
    using assms chunks_inner_length[of p _ images] nth len by simp
  have c4: "recs \<noteq> [] \<longrightarrow> length (files (last recs)) =
            (if length images mod p = 0 then p else length images mod p)"
  proof
    assume ne: "recs \<noteq> []"
    then have cne: "chunks p images \<noteq> []" using len by auto
    then have ine: "images \<noteq> []" by auto
    have "files (last recs) = last (map files recs)" using ne by (simp add: last_map)
    then show "length (files (last recs)) =
            (if length images mod p = 0 then p else length images mod p)"
      using chunks_last_length[OF assms ine] fs by simp
  qed
  have c5: "concat (map files recs) = images"
    using assms by (simp add: fs concat_chunks)
  have c6: "images = [] \<longrightarrow> recs = []" by (simp add: recs_def)
  have c7: "images \<noteq> [] \<and> length images < p \<longrightarrow> length recs = 1 \<and> files (recs ! 0) = images"
  proof
    assume a: "images \<noteq> [] \<and> length images < p"
    then have "chunks p images = [images]" by (simp add: chunks_single)
    then show "length recs = 1 \<and> files (recs ! 0) = images"
      by (simp add: recs_def fresh_submission_def)
  qed
  from ret c1 c2 c3 c4 c5 c6 c7 show ?thesis by blast
qed

theorem segment_partition_witness:
  "\<exists>recs. segment string_of_nat 2 [page 1, page 2, page 3] = Some recs
     \<and> length recs = 2
     \<and> map status recs = [pending, pending]
     \<and> map files recs = [[page 1, page 2], [page 3]]"
proof -
  from segment_partition[of 2 string_of_nat "[page 1, page 2, page 3]"]
  obtain recs where r: "segment string_of_nat 2 [page 1, page 2, page 3] = Some recs"
    and l: "int (length recs) = \<lceil>real (length [page 1, page 2, page 3]) / real 2\<rceil>"
    and s: "\<forall>r \<in> set recs. status r = pending"
    and i: "\<forall>j. Suc j < length recs \<longrightarrow> length (files (recs ! j)) = 2"
    and c: "concat (map files recs) = [page 1, page 2, page 3]"
    by auto
  from l have l2: "length recs = 2" by simp
  then obtain a b where ab: "recs = [a, b]"
    by (auto simp: numeral_2_eq_2 length_Suc_conv)
  from i ab have "length (files a) = 2" by auto
  with c ab have "files a = [page 1, page 2] \<and> files b = [page 3]"
    by (cases "files a"; cases "tl (files a)"; auto)
  with r l2 s ab show ?thesis by auto
qed

section \<open>The grading run\<close>

lemma length_settled_snapshot [simp]: "length (settled_snapshot grade ref m subs k) = length subs"
  by (simp add: settled_snapshot_def)

lemma length_processing_snapshot [simp]:
  "length (processing_snapshot grade ref m subs k) = length subs"
  by (simp add: processing_snapshot_def)

lemma nth_settled_snapshot:
  "j < length subs \<Longrightarrow>
   settled_snapshot grade ref m subs k ! j =
     (if j < k then settle grade ref m j (subs ! j) else subs ! j)"
  by (simp add: settled_snapshot_def)

lemma nth_processing_snapshot:
  "j < length subs \<Longrightarrow>
   processing_snapshot grade ref m subs i ! j =
     (if j < i then settle grade ref m j (subs ! j)
      else if j = i then (subs ! j)\<lparr>status := processing\<rparr> else subs ! j)"
  by (simp add: processing_snapshot_def)

lemma settled_snapshot_0 [simp]: "settled_snapshot grade ref m subs 0 = subs"
  by (rule nth_equalityI) (simp_all add: nth_settled_snapshot)

lemma processing_snapshot_update:
  "i < length subs \<Longrightarrow>
   (settled_snapshot grade ref m subs i)[i := (settled_snapshot grade ref m subs i ! i)\<lparr>status := processing\<rparr>]
     = processing_snapshot grade ref m subs i"
  by (rule nth_equalityI)
     (auto simp: nth_settled_snapshot nth_processing_snapshot nth_list_update)

lemma settled_snapshot_update:
  "i < length subs \<Longrightarrow>
   (processing_snapshot grade ref m subs i)[i := settle grade ref m i (subs ! i)]
     = settled_snapshot grade ref m subs (Suc i)"
  by (rule nth_equalityI)
     (auto simp: nth_settled_snapshot nth_processing_snapshot nth_list_update less_Suc_eq)

lemma grade_step_settled:
  assumes "i < length subs"
  shows "grade_step grade ref m i (settled_snapshot grade ref m subs i, toast, tr) =
     (settled_snapshot grade ref m subs (Suc i),
      (if ocr_issue grade ref m subs i then Some TOAST_OCR_ISSUES else toast),
      tr @ record_events grade ref m subs i)"
proof -
  let ?ns = "settled_snapshot grade ref m subs i"
  let ?ns1 = "processing_snapshot grade ref m subs i"
  have ns1: "?ns[i := (?ns ! i)\<lparr>status := processing\<rparr>] = ?ns1"
    using assms by (rule processing_snapshot_update)
  have at: "?ns1 ! i = (subs ! i)\<lparr>status := processing\<rparr>"
    using assms by (simp add: nth_processing_snapshot)
  have fl: "files (?ns1 ! i) = files (subs ! i)" by (simp add: at)
  show ?thesis
  proof (cases "grade i ref (files (subs ! i)) m")
    case (Inr res)
    then have st: "settle grade ref m i (subs ! i) = (subs ! i)\<lparr>status := completed, result := Some res\<rparr>"
      by (simp add: settle_def)
    have "?ns1[i := (?ns1 ! i)\<lparr>status := completed, result := Some res\<rparr>]
            = settled_snapshot grade ref m subs (Suc i)"
      using settled_snapshot_update[OF assms, of grade ref m] by (simp add: at st)
    with Inr show ?thesis
      by (simp add: grade_step_def ns1 fl Let_def record_events_def ocr_issue_def)
  next
    case (Inl err)
    then have st: "settle grade ref m i (subs ! i)
         = (subs ! i)\<lparr>status := error, errorMsg := Some (error_message err)\<rparr>"
      by (simp add: settle_def)
    have "?ns1[i := (?ns1 ! i)\<lparr>status := error, errorMsg := Some (error_message err)\<rparr>]
            = settled_snapshot grade ref m subs (Suc i)"
      using settled_snapshot_update[OF assms, of grade ref m] by (simp add: at st)
    with Inl show ?thesis
      by (simp add: grade_step_def ns1 fl Let_def record_events_def ocr_issue_def)
  qed
qed

lemma toast_after_step:
  "i < n \<Longrightarrow>
   toast_after grade ref m subs (Suc i) n
     (if ocr_issue grade ref m subs i then Some TOAST_OCR_ISSUES else toast)
   = toast_after grade ref m subs i n toast"
  by (simp add: toast_after_def upt_conv_Cons list_ex_iff)

lemma grading_loop_settled:
  "i \<le> length subs \<Longrightarrow>
   grading_loop grade ref m i (settled_snapshot grade ref m subs i, toast, tr) =
     (settled_snapshot grade ref m subs (length subs),
      toast_after grade ref m subs i (length subs) toast,
      tr @ concat (map (record_events grade ref m subs) [i..<length subs]))"
proof (induction "length subs - i" arbitrary: i toast tr)
  case 0
  then have "i = length subs" by simp
  then show ?case
    by (subst grading_loop.simps) (simp add: toast_after_def)
next
  case (Suc d)
  then have lt: "i < length subs" by simp
  have d: "d = length subs - Suc i" using Suc.hyps(2) by simp
  have le: "Suc i \<le> length subs" using lt by simp
  have "grading_loop grade ref m i (settled_snapshot grade ref m subs i, toast, tr) =
        grading_loop grade ref m (Suc i)
          (settled_snapshot grade ref m subs (Suc i),
           (if ocr_issue grade ref m subs i then Some TOAST_OCR_ISSUES else toast),
           tr @ record_events grade ref m subs i)"
    by (subst grading_loop.simps) (simp add: lt grade_step_settled)
  also have "\<dots> = (settled_snapshot grade ref m subs (length subs),
      toast_after grade ref m subs (Suc i) (length subs)
        (if ocr_issue grade ref m subs i then Some TOAST_OCR_ISSUES else toast),
      (tr @ record_events grade ref m subs i)
        @ concat (map (record_events grade ref m subs) [Suc i..<length subs]))"
    by (rule Suc.hyps(1)[OF d le])
  finally show ?case
    using lt by (simp add: toast_after_step upt_conv_Cons)
qed

lemma startGrading_run:
  assumes "referenceFile st = Some ref" "submissions st \<noteq> []"
  shows "startGrading grade st =
     (st\<lparr>isGrading := False, currentStep := GRADING,
         toastMessage := toast_after grade ref (model st) (submissions st) 0 (length (submissions st)) None,
         submissions := settled_snapshot grade ref (model st) (submissions st) (length (submissions st))\<rparr>,
      [SetIsGrading True, SetCurrentStep GRADING, SetToastMessage None]
      @ concat (map (record_events grade ref (model st) (submissions st)) [0..<length (submissions st)])
      @ [SetIsGrading False])"
  using assms grading_loop_settled[of 0 "submissions st" grade ref "model st" None]
  by (simp add: startGrading_def)

text \<open>
  Claim C10. When no reference file is set or the queue is empty, \<open>startGrading\<close> returns
  the state it was given and makes no event: no record changes, no grading call is issued,
  the step stays, and \<open>setIsGrading\<close> is never called.
\<close>

theorem startGrading_noop:
  assumes "referenceFile st = None \<or> submissions st = []"
  shows "startGrading grade st = (st, [])"
  using assms by (auto simp: startGrading_def split: option.splits)

theorem startGrading_noop_witness:
  "referenceFile initial_state = None \<and> startGrading fails_second initial_state = (initial_state, [])"
  using startGrading_noop[of initial_state fails_second] by (simp add: initial_state_def)

lemma status_settle:
  "status (settle grade ref m i s) =
     (case grade i ref (files s) m of Inr res \<Rightarrow> completed | Inl err \<Rightarrow> error)"
  by (simp add: settle_def split: sum.splits)

lemma record_events_call:
  "GradeSubmission i ref (files (subs ! i)) m \<in> set (record_events grade ref m subs i)"
  by (simp add: record_events_def)

text \<open>
  Claim C1, as amended. For every queue and every reference file: if the grading call of
  record \<open>k\<close> rejects with \<open>e\<close> and the call of every other record \<open>i\<close> resolves to \<open>r i\<close>,
  then after \<open>startGrading\<close> the queue has its length; record \<open>k\<close> has status \<open>error\<close>, and
  its \<open>errorMsg\<close> is the message of \<open>e\<close> when \<open>e\<close> is an \<open>Error\<close> object and the fixed string
  "Unknown error" when \<open>e\<close> is any other thrown value; every other record has status
  \<open>completed\<close> and its result stored; and the grading call of every record, the ones after
  \<open>k\<close> included, was issued. (Nothing is asked of the statuses at the start, so a queue of
  pending records is a case of it.)
\<close>

theorem startGrading_partial_failure:
  assumes ref: "referenceFile st = Some ref"
    and k: "k < length (submissions st)"
    and fail: "grade k ref (files (submissions st ! k)) (model st) = Inl e"
    and ok: "\<forall>i < length (submissions st). i \<noteq> k \<longrightarrow>
               grade i ref (files (submissions st ! i)) (model st) = Inr (r i)"
  shows "length (submissions (fst (startGrading grade st))) = length (submissions st)
     \<and> status (submissions (fst (startGrading grade st)) ! k) = error
     \<and> (\<forall>msg. e = Error_obj msg \<longrightarrow>
          errorMsg (submissions (fst (startGrading grade st)) ! k) = Some msg)
     \<and> (e = Other_thrown \<longrightarrow>
          errorMsg (submissions (fst (startGrading grade st)) ! k) = Some (js ''Unknown error''))
     \<and> (\<forall>i < length (submissions st). i \<noteq> k \<longrightarrow>
          status (submissions (fst (startGrading grade st)) ! i) = completed
          \<and> result (submissions (fst (startGrading grade st)) ! i) = Some (r i))
     \<and> (\<forall>i < length (submissions st).
          GradeSubmission i ref (files (submissions st ! i)) (model st)
            \<in> set (snd (startGrading grade st)))"
proof -
  let ?subs = "submissions st"
  let ?final = "settled_snapshot grade ref (model st) ?subs (length ?subs)"
  from k have ne: "?subs \<noteq> []" by auto
  note run = startGrading_run[OF ref ne, of grade]
  have fin: "submissions (fst (startGrading grade st)) = ?final" by (simp add: run)
  have nth: "?final ! i = settle grade ref (model st) i (?subs ! i)" if "i < length ?subs" for i
    using that by (simp add: nth_settled_snapshot)
  have c1: "length (submissions (fst (startGrading grade st))) = length ?subs" by (simp add: fin)
  have c2: "status (submissions (fst (startGrading grade st)) ! k) = error
     \<and> (\<forall>msg. e = Error_obj msg \<longrightarrow>
          errorMsg (submissions (fst (startGrading grade st)) ! k) = Some msg)
     \<and> (e = Other_thrown \<longrightarrow>
          errorMsg (submissions (fst (startGrading grade st)) ! k) = Some (js ''Unknown error''))"
    using k fail by (simp add: fin nth settle_def error_message_def)
  have c3: "\<forall>i < length ?subs. i \<noteq> k \<longrightarrow>
          status (submissions (fst (startGrading grade st)) ! i) = completed
          \<and> result (submissions (fst (startGrading grade st)) ! i) = Some (r i)"
    using ok by (simp add: fin nth settle_def)
  have c4: "\<forall>i < length ?subs.
          GradeSubmission i ref (files (?subs ! i)) (model st) \<in> set (snd (startGrading grade st))"
  proof (intro allI impI)
    fix i assume "i < length ?subs"
    then have "i \<in> set [0..<length ?subs]" by simp
    then have "GradeSubmission i ref (files (?subs ! i)) (model st)
        \<in> set (concat (map (record_events grade ref (model st) ?subs) [0..<length ?subs]))"
      using record_events_call[of i ref ?subs "model st" grade] by (auto simp del: set_upt)
    then show "GradeSubmission i ref (files (?subs ! i)) (model st) \<in> set (snd (startGrading grade st))"
      by (simp add: run)
  qed
  from c1 c2 c3 c4 show ?thesis by blast
qed

lemma three_pending_simps:
  "referenceFile three_pending = Some answer_key"
  "model three_pending = gemini_3_flash_preview"
  "submissions three_pending = [fresh_submission (js ''a'') [page 1], fresh_submission (js ''b'') [page 2],
                       fresh_submission (js ''c'') [page 3]]"
  by (simp_all add: three_pending_def initial_state_def)

theorem startGrading_partial_failure_witness:
  "map status (submissions (fst (startGrading fails_second three_pending))) = [completed, error, completed]
   \<and> errorMsg (submissions (fst (startGrading fails_second three_pending)) ! 1)
       = Some (js ''Empty response from model'')
   \<and> result (submissions (fst (startGrading fails_second three_pending)) ! 0) = Some (sample_result 0)
   \<and> result (submissions (fst (startGrading fails_second three_pending)) ! 2) = Some (sample_result 2)"
proof -
  let ?fin = "submissions (fst (startGrading fails_second three_pending))"
  have h: "\<forall>i < length (submissions three_pending). i \<noteq> 1 \<longrightarrow>
      fails_second i answer_key (files (submissions three_pending ! i)) (model three_pending)
        = Inr (sample_result i)"
    by (simp add: fails_second_def)
  from startGrading_partial_failure[of three_pending answer_key 1 fails_second
      "Error_obj (js ''Empty response from model'')" sample_result, OF _ _ _ h]
  have l: "length ?fin = 3"
    and e: "status (?fin ! 1) = error" "errorMsg (?fin ! 1) = Some (js ''Empty response from model'')"
    and o: "\<forall>i < 3. i \<noteq> 1 \<longrightarrow> status (?fin ! i) = completed \<and> result (?fin ! i) = Some (sample_result i)"
    by (simp_all add: three_pending_simps fails_second_def)
  from o have o0: "status (?fin ! 0) = completed" "result (?fin ! 0) = Some (sample_result 0)"
    and o2: "status (?fin ! 2) = completed" "result (?fin ! 2) = Some (sample_result 2)"
    by simp_all
  from l obtain a b c where abc: "?fin = [a, b, c]"
    by (auto simp: numeral_3_eq_3 length_Suc_conv)
  with e o0 o2 show ?thesis by simp
qed

text \<open>
  Claim C1 as stated fails when the grading call rejects with a value that is not an
  \<open>Error\<close> (a file that cannot be read rejects with the reader's error event): the catch
  clause then stores the fixed string "Unknown error", whatever the failure was.
\<close>

theorem unknown_error_counterexample:
  "rejects_second 1 answer_key [page 2] gemini_3_flash_preview = Inl Other_thrown
   \<and> map status (submissions (fst (startGrading rejects_second three_pending)))
       = [completed, error, completed]
   \<and> errorMsg (submissions (fst (startGrading rejects_second three_pending)) ! 1)
       = Some (js ''Unknown error'')"
  by (simp add: startGrading_run[of _ answer_key] three_pending_simps settled_snapshot_def
        settle_def rejects_second_def error_message_def fresh_submission_def)

lemma settled_snapshot_Suc:
  "i < length subs \<Longrightarrow>
   settled_snapshot grade ref m subs (Suc i) =
     (settled_snapshot grade ref m subs i)[i := settle grade ref m i (subs ! i)]"
  by (rule nth_equalityI) (auto simp: nth_settled_snapshot nth_list_update less_Suc_eq)

lemma snapshots_append [simp]: "snapshots (xs @ ys) = snapshots xs @ snapshots ys"
  by (induction xs rule: snapshots.induct) simp_all

lemma snapshots_record_events [simp]:
  "snapshots (record_events grade ref m subs i) =
     [processing_snapshot grade ref m subs i, settled_snapshot grade ref m subs (Suc i)]"
  by (simp add: record_events_def)

lemma snapshots_concat:
  "snapshots (concat (map (record_events grade ref m subs) is)) =
     concat (map (\<lambda>i. [processing_snapshot grade ref m subs i,
                        settled_snapshot grade ref m subs (Suc i)]) is)"
  by (induction "is") simp_all

text \<open>
  Claim C3. With a reference file and a non-empty queue, the events of \<open>startGrading\<close> are
  the three setters of its start, then for record \<open>0\<close>, record \<open>1\<close>, ... in queue order the
  events of that record alone, then \<open>setIsGrading(false)\<close>. The events of record \<open>i\<close> are:
  the queue is published with record \<open>i\<close> set to \<open>processing\<close> and every other record as it
  was published last; then the grading call of record \<open>i\<close> is issued; then (after the toast,
  if the result flags it) the queue is published with record \<open>i\<close> settled, to \<open>completed\<close> or
  \<open>error\<close>, and every other record unchanged. No event of another record stands between.
\<close>

theorem startGrading_sequential:
  assumes "referenceFile st = Some ref" and "submissions st \<noteq> []"
  shows "snd (startGrading grade st) =
       [SetIsGrading True, SetCurrentStep GRADING, SetToastMessage None]
       @ concat (map (record_events grade ref (model st) (submissions st))
                   [0..<length (submissions st)])
       @ [SetIsGrading False]
     \<and> (\<forall>i < length (submissions st).
          record_events grade ref (model st) (submissions st) i =
            [SetSubmissions (processing_snapshot grade ref (model st) (submissions st) i),
             GradeSubmission i ref (files (submissions st ! i)) (model st)]
            @ (if ocr_issue grade ref (model st) (submissions st) i
               then [SetToastMessage (Some TOAST_OCR_ISSUES)] else [])
            @ [SetSubmissions (settled_snapshot grade ref (model st) (submissions st) (Suc i))]
          \<and> processing_snapshot grade ref (model st) (submissions st) i =
              (settled_snapshot grade ref (model st) (submissions st) i)
                [i := (submissions st ! i)\<lparr>status := processing\<rparr>]
          \<and> settled_snapshot grade ref (model st) (submissions st) (Suc i) =
              (processing_snapshot grade ref (model st) (submissions st) i)
                [i := settle grade ref (model st) i (submissions st ! i)]
          \<and> (status (settle grade ref (model st) i (submissions st ! i)) = completed
              \<or> status (settle grade ref (model st) i (submissions st ! i)) = error))
     \<and> settled_snapshot grade ref (model st) (submissions st) 0 = submissions st"
proof -
  let ?subs = "submissions st"
  have a: "snd (startGrading grade st) =
       [SetIsGrading True, SetCurrentStep GRADING, SetToastMessage None]
       @ concat (map (record_events grade ref (model st) ?subs) [0..<length ?subs])
       @ [SetIsGrading False]"
    by (simp add: startGrading_run[OF assms])
  have b: "processing_snapshot grade ref (model st) ?subs i =
              (settled_snapshot grade ref (model st) ?subs i)[i := (?subs ! i)\<lparr>status := processing\<rparr>]"
    if "i < length ?subs" for i
    using processing_snapshot_update[OF that, of grade ref "model st"] that
    by (simp add: nth_settled_snapshot)
  have c: "settled_snapshot grade ref (model st) ?subs (Suc i) =
              (processing_snapshot grade ref (model st) ?subs i)
                [i := settle grade ref (model st) i (?subs ! i)]"
    if "i < length ?subs" for i
    using settled_snapshot_update[OF that, of grade ref "model st"] by simp
  have d: "status (settle grade ref (model st) i (?subs ! i)) = completed
              \<or> status (settle grade ref (model st) i (?subs ! i)) = error" for i
    by (simp add: status_settle split: sum.splits)
  show ?thesis
    using a b c d by (simp add: record_events_def)
qed

theorem startGrading_sequential_witness:
  "map (map status) (snapshots (snd (startGrading fails_second three_pending))) =
     [[processing, pending, pending], [completed, pending, pending],
      [completed, processing, pending], [completed, error, pending],
      [completed, error, processing], [completed, error, completed]]
   \<and> filter (\<lambda>e. case e of GradeSubmission i r fs m \<Rightarrow> True | _ \<Rightarrow> False)
        (snd (startGrading fails_second three_pending)) =
       [GradeSubmission 0 answer_key [page 1] gemini_3_flash_preview,
        GradeSubmission 1 answer_key [page 2] gemini_3_flash_preview,
        GradeSubmission 2 answer_key [page 3] gemini_3_flash_preview]"
proof -
  have ne: "submissions three_pending \<noteq> []" by (simp add: three_pending_simps)
  from startGrading_sequential[of three_pending answer_key fails_second, OF _ ne]
  have tr: "snd (startGrading fails_second three_pending) =
       [SetIsGrading True, SetCurrentStep GRADING, SetToastMessage None]
       @ concat (map (record_events fails_second answer_key (model three_pending) (submissions three_pending))
                   [0..<length (submissions three_pending)])
       @ [SetIsGrading False]"
    by (simp add: three_pending_simps)
  have up: "[0..<3] = [0, 1, 2]" by (simp add: upt_rec)
  show ?thesis
    unfolding tr
    by (simp add: three_pending_simps up record_events_def processing_snapshot_def
          settled_snapshot_def settle_def fails_second_def ocr_issue_def sample_result_def
          fresh_submission_def)
qed

section \<open>Progress of a run\<close>

lemma length_filter_less_upt: "length (filter (\<lambda>j. j < k) [0..<n]) = min k n"
  by (induction n) auto

lemma terminal_settle:
  "status (settle grade ref m i s) = completed \<or> status (settle grade ref m i s) = error"
  by (simp add: status_settle split: sum.splits)

lemma count_terminal_settled:
  assumes "\<forall>s \<in> set subs. status s = pending" and "k \<le> length subs"
  shows "length (filter (\<lambda>s. status s = completed \<or> status s = error)
            (settled_snapshot grade ref m subs k)) = k"
proof -
  have "filter (\<lambda>j. status (if j < k then settle grade ref m j (subs ! j) else subs ! j) = completed
                  \<or> status (if j < k then settle grade ref m j (subs ! j) else subs ! j) = error)
          [0..<length subs]
        = filter (\<lambda>j. j < k) [0..<length subs]"
    using assms(1) terminal_settle[of grade ref m] by (intro filter_cong) auto
  then show ?thesis
    using assms(2)
    by (simp add: settled_snapshot_def filter_map o_def length_filter_less_upt)
qed

lemma count_terminal_processing:
  assumes "\<forall>s \<in> set subs. status s = pending" and "i < length subs"
  shows "length (filter (\<lambda>s. status s = completed \<or> status s = error)
            (processing_snapshot grade ref m subs i)) = i"
proof -
  have "filter (\<lambda>j. status (if j < i then settle grade ref m j (subs ! j)
                            else if j = i then (subs ! j)\<lparr>status := processing\<rparr> else subs ! j) = completed
                  \<or> status (if j < i then settle grade ref m j (subs ! j)
                            else if j = i then (subs ! j)\<lparr>status := processing\<rparr> else subs ! j) = error)
          [0..<length subs]
        = filter (\<lambda>j. j < i) [0..<length subs]"
    using assms(1) terminal_settle[of grade ref m] by (intro filter_cong) auto
  then show ?thesis
    using assms(2)
    by (simp add: processing_snapshot_def filter_map o_def length_filter_less_upt)
qed

lemma progress_settled:
  "\<forall>s \<in> set subs. status s = pending \<Longrightarrow> k \<le> length subs \<Longrightarrow>
   progress (settled_snapshot grade ref m subs k) = of_nat k / of_nat (length subs)"
  by (simp add: progress_def count_terminal_settled)

lemma progress_processing:
  "\<forall>s \<in> set subs. status s = pending \<Longrightarrow> i < length subs \<Longrightarrow>
   progress (processing_snapshot grade ref m subs i) = of_nat i / of_nat (length subs)"
  by (simp add: progress_def count_terminal_processing)

lemma progress_formula:
  "progress snap =
     (of_nat (length (filter (\<lambda>s. status s = completed) snap))
      + of_nat (length (filter (\<lambda>s. status s = error) snap))) / of_nat (length snap)"
proof -
  have "length (filter (\<lambda>s. status s = completed \<or> status s = error) snap)
      = length (filter (\<lambda>s. status s = completed) snap) + length (filter (\<lambda>s. status s = error) snap)"
    by (induction snap) auto
  then show ?thesis by (simp add: progress_def)
qed

lemma sorted_steps:
  fixes g :: "nat \<Rightarrow> rat"
  assumes mono: "\<And>i j. i \<le> j \<Longrightarrow> g i \<le> g j"
  shows "sorted (concat (map (\<lambda>i. [g i, g (Suc i)]) [a..<b]))
     \<and> (\<forall>y \<in> set (concat (map (\<lambda>i. [g i, g (Suc i)]) [a..<b])). g a \<le> y)"
proof (induction "b - a" arbitrary: a)
  case 0
  then show ?case by simp
next
  case (Suc d)
  then have lt: "a < b" and d: "d = b - Suc a" by simp_all
  from Suc.hyps(1)[OF d]
  have ih: "sorted (concat (map (\<lambda>i. [g i, g (Suc i)]) [Suc a..<b]))"
    and lb: "\<forall>y \<in> set (concat (map (\<lambda>i. [g i, g (Suc i)]) [Suc a..<b])). g (Suc a) \<le> y"
    by simp_all
  have step: "g a \<le> g (Suc a)" by (rule mono) simp
  have lb2: "\<forall>y \<in> set (concat (map (\<lambda>i. [g i, g (Suc i)]) [Suc a..<b])). g a \<le> y"
    using lb step by (meson order_trans)
  have unf: "concat (map (\<lambda>i. [g i, g (Suc i)]) [a..<b])
      = g a # g (Suc a) # concat (map (\<lambda>i. [g i, g (Suc i)]) [Suc a..<b])"
    using lt by (simp add: upt_conv_Cons)
  show ?case
    unfolding unf using ih lb lb2 step by simp
qed

lemma progress_snapshots_run:
  assumes pend: "\<forall>s \<in> set subs. status s = pending"
  shows "map progress (concat (map (\<lambda>i. [processing_snapshot grade ref m subs i,
                        settled_snapshot grade ref m subs (Suc i)]) [0..<length subs]))
       = concat (map (\<lambda>i. [of_nat i / of_nat (length subs), of_nat (Suc i) / of_nat (length subs)])
            [0..<length subs])"
proof -
  have "map progress [processing_snapshot grade ref m subs i, settled_snapshot grade ref m subs (Suc i)]
      = [of_nat i / of_nat (length subs), of_nat (Suc i) / of_nat (length subs)]"
    if "i \<in> set [0..<length subs]" for i
    using that pend progress_processing[of subs i grade ref m]
      progress_settled[of subs "Suc i" grade ref m] by simp
  then show ?thesis
    unfolding map_concat map_map o_def
    by (intro arg_cong[where f = concat] map_cong) simp_all
qed

lemma upt3: "[0..<3] = [0, 1, 2]"
  by (simp add: upt_rec)

lemma upt2: "[0..<2] = [0, 1]"
  by (simp add: upt_rec)

lemma snapshots_startGrading:
  assumes "referenceFile st = Some ref" and "submissions st \<noteq> []"
  shows "snapshots (snd (startGrading grade st)) =
      concat (map (\<lambda>i. [processing_snapshot grade ref (model st) (submissions st) i,
                        settled_snapshot grade ref (model st) (submissions st) (Suc i)])
                [0..<length (submissions st)])"
  by (simp add: startGrading_run[OF assms] snapshots_concat)

lemma progress_all_settled:
  assumes "subs \<noteq> []"
  shows "progress (settled_snapshot grade ref m subs (length subs)) = 1"
proof -
  have "\<forall>s \<in> set (settled_snapshot grade ref m subs (length subs)).
          status s = completed \<or> status s = error"
    using terminal_settle[of grade ref m] by (auto simp: settled_snapshot_def)
  then have "filter (\<lambda>s. status s = completed \<or> status s = error)
               (settled_snapshot grade ref m subs (length subs))
             = settled_snapshot grade ref m subs (length subs)"
    by (simp add: filter_id_conv)
  then show ?thesis using assms by (simp add: progress_def)
qed

text \<open>
  Claim C8, as amended. During a grading run (reference file set, queue not empty) every
  published snapshot has the length of the queue and its progress ratio is the number of
  \<open>completed\<close> records plus the number of \<open>error\<close> records over that length; the ratio is
  \<open>1\<close> when the run finishes; and when every record of the queue is \<open>pending\<close> at the start
  the ratio never decreases from one snapshot to the next.
\<close>

theorem progress_monotone:
  assumes ref: "referenceFile st = Some ref"
    and ne: "submissions st \<noteq> []"
  shows "(\<forall>snap \<in> set (snapshots (snd (startGrading grade st))).
            length snap = length (submissions st)
            \<and> progress snap =
                (of_nat (length (filter (\<lambda>s. status s = completed) snap))
                 + of_nat (length (filter (\<lambda>s. status s = error) snap)))
                / of_nat (length (submissions st)))
     \<and> ((\<forall>s \<in> set (submissions st). status s = pending) \<longrightarrow>
          sorted (map progress (snapshots (snd (startGrading grade st)))))
     \<and> length (submissions (fst (startGrading grade st))) = length (submissions st)
     \<and> progress (submissions (fst (startGrading grade st))) = 1"
proof -
  let ?subs = "submissions st"
  let ?n = "length ?subs"
  note run = startGrading_run[OF ref ne, of grade]
  note snaps = snapshots_startGrading[OF ref ne, of grade]
  have len: "\<forall>snap \<in> set (snapshots (snd (startGrading grade st))). length snap = ?n"
    by (auto simp: snaps)
  have c1: "\<forall>snap \<in> set (snapshots (snd (startGrading grade st))).
            length snap = ?n
            \<and> progress snap =
                (of_nat (length (filter (\<lambda>s. status s = completed) snap))
                 + of_nat (length (filter (\<lambda>s. status s = error) snap))) / of_nat ?n"
    using len progress_formula by metis
  have mono: "(of_nat i :: rat) / of_nat ?n \<le> of_nat j / of_nat ?n" if "i \<le> j" for i j
    using that by (simp add: divide_right_mono)
  have c2: "sorted (map progress (snapshots (snd (startGrading grade st))))"
    if pend: "\<forall>s \<in> set ?subs. status s = pending"
    unfolding snaps progress_snapshots_run[OF pend]
    using sorted_steps[of "\<lambda>i. of_nat i / of_nat ?n" 0 ?n, OF mono] by simp
  have fin: "submissions (fst (startGrading grade st)) = settled_snapshot grade ref (model st) ?subs ?n"
    by (simp add: run)
  have c3: "length (submissions (fst (startGrading grade st))) = ?n" by (simp add: fin)
  have c4: "progress (submissions (fst (startGrading grade st))) = 1"
    using ne by (simp add: fin progress_all_settled)
  from c1 c2 c3 c4 show ?thesis by blast
qed

theorem progress_monotone_witness:
  "map progress (snapshots (snd (startGrading fails_second three_pending))) =
     [0, 1 / 3, 1 / 3, 2 / 3, 2 / 3, 1]
   \<and> sorted (map progress (snapshots (snd (startGrading fails_second three_pending))))
   \<and> progress (submissions (fst (startGrading fails_second three_pending))) = 1"
proof -
  have ne: "submissions three_pending \<noteq> []" by (simp add: three_pending_simps)
  have pend: "\<forall>s \<in> set (submissions three_pending). status s = pending"
    by (simp add: three_pending_simps fresh_submission_def)
  from progress_monotone[of three_pending answer_key fails_second, OF _ ne] pend
  have s: "sorted (map progress (snapshots (snd (startGrading fails_second three_pending))))"
    and f: "progress (submissions (fst (startGrading fails_second three_pending))) = 1"
    by (simp_all add: three_pending_simps)
  have "map progress (snapshots (snd (startGrading fails_second three_pending))) =
     [0, 1 / 3, 1 / 3, 2 / 3, 2 / 3, 1]"
    by (simp add: snapshots_startGrading[of three_pending answer_key] three_pending_simps
          progress_def processing_snapshot_def settled_snapshot_def settle_def fails_second_def
          fresh_submission_def)
  with s f show ?thesis by simp
qed

lemma queued_two_eq:
  "queued_two =
     initial_state\<lparr>currentStep := UPLOAD_STUDENTS, referenceFile := Some answer_key,
       submissions := [fresh_submission (js ''a'') [page 1], fresh_submission (js ''b'') [page 2]]\<rparr>"
  by (simp add: queued_two_def upload_def handleFileSelect_def addStudentToQueue_def
        onNextToUpload_def handleReferenceSelect_def initial_state_def fresh_submission_def)

lemma first_run_ok:
  "onStartGradingClick always_ok queued_two =
     initial_state\<lparr>currentStep := GRADING, referenceFile := Some answer_key,
       submissions :=
         [(fresh_submission (js ''a'') [page 1])\<lparr>status := completed, result := Some (sample_result 0)\<rparr>,
          (fresh_submission (js ''b'') [page 2])\<lparr>status := completed, result := Some (sample_result 1)\<rparr>]\<rparr>"
  unfolding queued_two_eq onStartGradingClick_def
  using startGrading_run[of "initial_state\<lparr>currentStep := UPLOAD_STUDENTS, referenceFile := Some answer_key,
       submissions := [fresh_submission (js ''a'') [page 1], fresh_submission (js ''b'') [page 2]]\<rparr>"
       answer_key always_ok]
  by (simp add: initial_state_def upt2 settled_snapshot_def settle_def always_ok_def
        toast_after_def ocr_issue_def sample_result_def fresh_submission_def)

text \<open>
  Claim C8 as stated fails for a run over a queue that was graded before: the loop sets
  every record back to \<open>processing\<close>, whatever its status, so the ratio falls.
\<close>

theorem progress_rerun_counterexample:
  "currentStep (regrade_ready always_ok) = UPLOAD_STUDENTS
   \<and> map status (submissions (regrade_ready always_ok)) = [completed, completed]
   \<and> map progress (snapshots (snd (startGrading always_ok (regrade_ready always_ok))))
       = [1 / 2, 1, 1 / 2, 1]
   \<and> \<not> sorted (map progress (snapshots (snd (startGrading always_ok (regrade_ready always_ok)))))"
proof -
  let ?subs = "[(fresh_submission (js ''a'') [page 1])\<lparr>status := completed, result := Some (sample_result 0)\<rparr>,
          (fresh_submission (js ''b'') [page 2])\<lparr>status := completed, result := Some (sample_result 1)\<rparr>]"
  have rr: "regrade_ready always_ok =
     initial_state\<lparr>currentStep := UPLOAD_STUDENTS, referenceFile := Some answer_key,
       submissions := ?subs\<rparr>"
    by (simp add: regrade_ready_def first_run_ok onNextToUpload_def handleReferenceSelect_def
          onRemoveReference_def initial_state_def)
  have p: "map progress (snapshots (snd (startGrading always_ok (regrade_ready always_ok))))
       = [1 / 2, 1, 1 / 2, 1]"
    unfolding rr
    by (simp add: snapshots_startGrading[of _ answer_key] initial_state_def
          progress_def processing_snapshot_def settled_snapshot_def settle_def
          always_ok_def fresh_submission_def)
  have "currentStep (regrade_ready always_ok) = UPLOAD_STUDENTS
     \<and> map status (submissions (regrade_ready always_ok)) = [completed, completed]"
    by (simp add: rr fresh_submission_def)
  with p show ?thesis by simp
qed

section \<open>The invariant of a record\<close>


















section \<open>Response normalisation\<close>

lemma trim_empty_iff: "trim s = [] \<longleftrightarrow> list_all is_js_whitespace s"
proof
  assume "trim s = []"
  then have "dropWhile is_js_whitespace (rev (dropWhile is_js_whitespace s)) = []"
    by (simp add: trim_def)
  then have all: "\<forall>x \<in> set (dropWhile is_js_whitespace s). is_js_whitespace x"
    by (simp add: dropWhile_eq_Nil_conv)
  have "dropWhile is_js_whitespace s = []"
  proof (rule ccontr)
    assume ne: "dropWhile is_js_whitespace s \<noteq> []"
    then have "\<not> is_js_whitespace (hd (dropWhile is_js_whitespace s))"
      by (rule hd_dropWhile)
    moreover have "hd (dropWhile is_js_whitespace s) \<in> set (dropWhile is_js_whitespace s)"
      using ne by simp
    ultimately show False using all by blast
  qed
  then show "list_all is_js_whitespace s"
    by (simp add: dropWhile_eq_Nil_conv list_all_iff)
next
  assume "list_all is_js_whitespace s"
  then have "dropWhile is_js_whitespace s = []"
    by (simp add: dropWhile_eq_Nil_conv list_all_iff)
  then show "trim s = []" by (simp add: trim_def del: dropWhile_eq_Nil_conv)
qed

lemma missing_or_blank_iff: "missing_or_blank v = absent_or_blank v"
proof (cases v)
  case None
  then show ?thesis by (simp add: missing_or_blank_def)
next
  case (Some j)
  then show ?thesis
    by (cases j) (auto simp: missing_or_blank_def trim_empty_iff)
qed

lemma normalise_not_null:
  "rawResult \<noteq> JNull \<Longrightarrow> \<exists>r. normalise rawResult = Inr r"
  by (simp add: normalise_def Let_def)

lemma gradeSubmission_parsed:
  assumes "generateContent ref fs m = Responds (Some text)"
    and "text \<noteq> []" and "JSON_parse text = Some rawResult"
  shows "gradeSubmission JSON_parse generateContent ref fs m =
     (case normalise rawResult of Inl e \<Rightarrow> Inl (Error_obj PARSE_FAILED) | Inr r \<Rightarrow> Inr r)"
  using assms by (simp add: gradeSubmission_def)

text \<open>
  Claim C6, as amended. For every response whose text is not empty and parses to a value
  other than \<open>null\<close>, \<open>gradeSubmission\<close> returns a result; the \<open>student_name\<close> of the result
  is the sentinel when the \<open>student_name\<close> of the payload is missing, not a string, or an
  empty or white-space-only string, and is the payload's string otherwise; the same holds
  of \<open>student_class\<close> with its sentinel; and \<open>hasOCRIssues\<close> is true exactly when one of the
  two was replaced by its sentinel.
\<close>

theorem gradeSubmission_sentinels:
  assumes "generateContent ref fs m = Responds (Some text)"
    and "text \<noteq> []" and "JSON_parse text = Some rawResult" and "rawResult \<noteq> JNull"
  shows "\<exists>r. gradeSubmission JSON_parse generateContent ref fs m = Inr r
     \<and> ret_student_name r =
         (if absent_or_blank (get_prop rawResult (js ''student_name'')) then NAME_SENTINEL
          else string_value (get_prop rawResult (js ''student_name'')))
     \<and> ret_student_class r =
         (if absent_or_blank (get_prop rawResult (js ''student_class'')) then CLASS_SENTINEL
          else string_value (get_prop rawResult (js ''student_class'')))
     \<and> ret_hasOCRIssues r =
         (absent_or_blank (get_prop rawResult (js ''student_name''))
          \<or> absent_or_blank (get_prop rawResult (js ''student_class'')))"
  using assms
  by (simp add: gradeSubmission_parsed normalise_def Let_def missing_or_blank_iff)

theorem gradeSubmission_sentinels_witness:
  "(\<exists>r. gradeSubmission parse_literals
          (responds (js ''{\"student_name\":\" \",\"total_score\":\"9\"}''))
          answer_key [page 1] gemini_3_flash_preview = Inr r
     \<and> ret_student_name r = NAME_SENTINEL \<and> ret_student_class r = CLASS_SENTINEL
     \<and> ret_hasOCRIssues r)
   \<and> (\<exists>r. gradeSubmission parse_literals
          (responds (js ''{\"student_name\":\"Kim\",\"student_class\":\"3-2\"}''))
          answer_key [page 1] gemini_3_flash_preview = Inr r
     \<and> ret_student_name r = js ''Kim'' \<and> ret_student_class r = js ''3-2''
     \<and> \<not> ret_hasOCRIssues r)"
proof -
  let ?t = "js ''{\"student_name\":\" \",\"total_score\":\"9\"}''"
  let ?raw = "JObj [(js ''student_name'', JStr (js '' '')), (js ''total_score'', JStr (js ''9''))]"
  let ?u = "js ''{\"student_name\":\"Kim\",\"student_class\":\"3-2\"}''"
  let ?rau = "JObj [(js ''student_name'', JStr (js ''Kim'')), (js ''student_class'', JStr (js ''3-2''))]"
  have p: "parse_literals ?t = Some ?raw" "parse_literals ?u = Some ?rau"
    by (simp_all add: parse_literals_def js_def)
  have n: "?t \<noteq> []" "?u \<noteq> []" by (simp_all add: js_def)
  have a: "absent_or_blank (get_prop ?raw (js ''student_name''))"
    "absent_or_blank (get_prop ?raw (js ''student_class''))"
    by (simp_all add: js_def is_js_whitespace_def)
  have b: "\<not> absent_or_blank (get_prop ?rau (js ''student_name''))"
    "\<not> absent_or_blank (get_prop ?rau (js ''student_class''))"
    "string_value (get_prop ?rau (js ''student_name'')) = js ''Kim''"
    "string_value (get_prop ?rau (js ''student_class'')) = js ''3-2''"
    by (simp_all add: js_def is_js_whitespace_def)
  have 1: "\<exists>r. gradeSubmission parse_literals (responds ?t) answer_key [page 1]
          gemini_3_flash_preview = Inr r
     \<and> ret_student_name r = NAME_SENTINEL \<and> ret_student_class r = CLASS_SENTINEL
     \<and> ret_hasOCRIssues r"
    using gradeSubmission_sentinels[of "responds ?t" answer_key "[page 1]"
        gemini_3_flash_preview ?t parse_literals ?raw, OF _ n(1) p(1)] a
    by (simp add: responds_def)
  have 2: "\<exists>r. gradeSubmission parse_literals (responds ?u) answer_key [page 1]
          gemini_3_flash_preview = Inr r
     \<and> ret_student_name r = js ''Kim'' \<and> ret_student_class r = js ''3-2''
     \<and> \<not> ret_hasOCRIssues r"
    using gradeSubmission_sentinels[of "responds ?u" answer_key "[page 1]"
        gemini_3_flash_preview ?u parse_literals ?rau, OF _ n(2) p(2)] b
    by (simp add: responds_def)
  from 1 2 show ?thesis by simp
qed

text \<open>
  Claim C6 as stated fails for the response text \<open>null\<close>: it parses, the value has no
  \<open>student_name\<close>, and the call rejects instead of returning a result with the sentinel.
\<close>

theorem null_payload_counterexample:
  "parse_literals (js ''null'') = Some JNull
   \<and> get_prop JNull (js ''student_name'') = None
   \<and> absent_or_blank (get_prop JNull (js ''student_name''))
   \<and> gradeSubmission parse_literals (responds (js ''null'')) answer_key [page 1]
        gemini_3_flash_preview = Inl (Error_obj PARSE_FAILED)"
  by (simp add: gradeSubmission_def responds_def parse_literals_def normalise_def js_def)

text \<open>
  Claim C7, as amended. Given that the model call returns a response: \<open>gradeSubmission\<close>
  rejects with "Empty response from model" when the text is absent or empty, rejects with
  "Failed to parse grading results from model response." when \<open>JSON.parse\<close> throws on the
  text or the text parses to \<open>null\<close>, and in every other case returns a complete result:
  name and class defaulted as in C6, \<open>total_score\<close> the payload's number or else \<open>0\<close>,
  \<open>scores\<close> the payload's array or else empty, \<open>feedback\<close> the payload's value when that is
  truthy or else the sentinel. So it rejects exactly in the first two cases.
\<close>

theorem gradeSubmission_outcomes:
  assumes "generateContent ref fs m = Responds text"
  shows "(text = None \<or> text = Some [] \<longrightarrow>
            gradeSubmission JSON_parse generateContent ref fs m = Inl (Error_obj EMPTY_RESPONSE))
     \<and> (\<forall>t. text = Some t \<and> t \<noteq> [] \<and> (JSON_parse t = None \<or> JSON_parse t = Some JNull) \<longrightarrow>
            gradeSubmission JSON_parse generateContent ref fs m = Inl (Error_obj PARSE_FAILED))
     \<and> (\<forall>t rawResult. text = Some t \<and> t \<noteq> [] \<and> JSON_parse t = Some rawResult \<and> rawResult \<noteq> JNull \<longrightarrow>
            gradeSubmission JSON_parse generateContent ref fs m =
              Inr \<lparr>ret_student_name =
                     (if absent_or_blank (get_prop rawResult (js ''student_name'')) then NAME_SENTINEL
                      else string_value (get_prop rawResult (js ''student_name''))),
                   ret_student_class =
                     (if absent_or_blank (get_prop rawResult (js ''student_class'')) then CLASS_SENTINEL
                      else string_value (get_prop rawResult (js ''student_class''))),
                   ret_total_score =
                     (case get_prop rawResult (js ''total_score'') of Some (JNum n) \<Rightarrow> n | _ \<Rightarrow> 0),
                   ret_feedback =
                     (case get_prop rawResult (js ''feedback'') of
                        None \<Rightarrow> JStr NO_FEEDBACK
                      | Some v \<Rightarrow> if truthy (Some v) then v else JStr NO_FEEDBACK),
                   ret_scores =
                     (case get_prop rawResult (js ''scores'') of Some (JArr xs) \<Rightarrow> xs | _ \<Rightarrow> []),
                   ret_hasOCRIssues =
                     (absent_or_blank (get_prop rawResult (js ''student_name''))
                      \<or> absent_or_blank (get_prop rawResult (js ''student_class'')))\<rparr>)"
proof -
  have a: "text = None \<or> text = Some [] \<longrightarrow>
            gradeSubmission JSON_parse generateContent ref fs m = Inl (Error_obj EMPTY_RESPONSE)"
    using assms by (auto simp: gradeSubmission_def)
  have b: "\<forall>t. text = Some t \<and> t \<noteq> [] \<and> (JSON_parse t = None \<or> JSON_parse t = Some JNull) \<longrightarrow>
            gradeSubmission JSON_parse generateContent ref fs m = Inl (Error_obj PARSE_FAILED)"
    using assms by (auto simp: gradeSubmission_def normalise_def)
  have c: "\<forall>t rawResult. text = Some t \<and> t \<noteq> [] \<and> JSON_parse t = Some rawResult \<and> rawResult \<noteq> JNull \<longrightarrow>
            gradeSubmission JSON_parse generateContent ref fs m =
              Inr \<lparr>ret_student_name =
                     (if absent_or_blank (get_prop rawResult (js ''student_name'')) then NAME_SENTINEL
                      else string_value (get_prop rawResult (js ''student_name''))),
                   ret_student_class =
                     (if absent_or_blank (get_prop rawResult (js ''student_class'')) then CLASS_SENTINEL
                      else string_value (get_prop rawResult (js ''student_class''))),
                   ret_total_score =
                     (case get_prop rawResult (js ''total_score'') of Some (JNum n) \<Rightarrow> n | _ \<Rightarrow> 0),
                   ret_feedback =
                     (case get_prop rawResult (js ''feedback'') of
                        None \<Rightarrow> JStr NO_FEEDBACK
                      | Some v \<Rightarrow> if truthy (Some v) then v else JStr NO_FEEDBACK),
                   ret_scores =
                     (case get_prop rawResult (js ''scores'') of Some (JArr xs) \<Rightarrow> xs | _ \<Rightarrow> []),
                   ret_hasOCRIssues =
                     (absent_or_blank (get_prop rawResult (js ''student_name''))
                      \<or> absent_or_blank (get_prop rawResult (js ''student_class'')))\<rparr>"
    using assms by (simp add: gradeSubmission_def normalise_def Let_def missing_or_blank_iff)
  from a b c show ?thesis by blast
qed

theorem gradeSubmission_outcomes_witness:
  "gradeSubmission parse_literals (\<lambda>ref fs m. Responds None) answer_key [page 1]
       gemini_3_flash_preview = Inl (Error_obj EMPTY_RESPONSE)
   \<and> gradeSubmission parse_literals (responds (js ''oops'')) answer_key [page 1]
       gemini_3_flash_preview = Inl (Error_obj PARSE_FAILED)
   \<and> gradeSubmission parse_literals (responds (js ''null'')) answer_key [page 1]
       gemini_3_flash_preview = Inl (Error_obj PARSE_FAILED)
   \<and> gradeSubmission parse_literals
        (responds (js ''{\"student_name\":\" \",\"total_score\":\"9\"}''))
        answer_key [page 1] gemini_3_flash_preview =
       Inr \<lparr>ret_student_name = NAME_SENTINEL, ret_student_class = CLASS_SENTINEL,
            ret_total_score = 0, ret_feedback = JStr NO_FEEDBACK, ret_scores = [],
            ret_hasOCRIssues = True\<rparr>"
proof -
  let ?t = "js ''{\"student_name\":\" \",\"total_score\":\"9\"}''"
  have p: "parse_literals ?t =
      Some (JObj [(js ''student_name'', JStr (js '' '')), (js ''total_score'', JStr (js ''9''))])"
    "parse_literals (js ''oops'') = None"
    by (simp_all add: parse_literals_def js_def)
  have n: "?t \<noteq> []" "js ''oops'' \<noteq> []" by (simp_all add: js_def)
  have 1: "gradeSubmission parse_literals (\<lambda>ref fs m. Responds None) answer_key [page 1]
       gemini_3_flash_preview = Inl (Error_obj EMPTY_RESPONSE)"
    using gradeSubmission_outcomes[of "\<lambda>ref fs m. Responds None" answer_key "[page 1]"
        gemini_3_flash_preview None parse_literals]
    by simp
  have 2: "gradeSubmission parse_literals (responds (js ''oops'')) answer_key [page 1]
       gemini_3_flash_preview = Inl (Error_obj PARSE_FAILED)"
    using gradeSubmission_outcomes[of "responds (js ''oops'')" answer_key "[page 1]"
        gemini_3_flash_preview "Some (js ''oops'')" parse_literals] p n
    by (simp add: responds_def)
  have 3: "gradeSubmission parse_literals (responds ?t) answer_key [page 1] gemini_3_flash_preview =
       Inr \<lparr>ret_student_name = NAME_SENTINEL, ret_student_class = CLASS_SENTINEL,
            ret_total_score = 0, ret_feedback = JStr NO_FEEDBACK, ret_scores = [],
            ret_hasOCRIssues = True\<rparr>"
    using gradeSubmission_outcomes[of "responds ?t" answer_key "[page 1]"
        gemini_3_flash_preview "Some ?t" parse_literals] p n
    by (simp add: responds_def js_def is_js_whitespace_def)
  have 4: "gradeSubmission parse_literals (responds (js ''null'')) answer_key [page 1]
       gemini_3_flash_preview = Inl (Error_obj PARSE_FAILED)"
    using gradeSubmission_outcomes[of "responds (js ''null'')" answer_key "[page 1]"
        gemini_3_flash_preview "Some (js ''null'')" parse_literals]
    by (simp add: responds_def parse_literals_def js_def)
  from 1 2 3 4 show ?thesis by simp
qed

text \<open>
  Claim C7 as stated fails: the text \<open>null\<close> parses, yet the call rejects (reading
  \<open>student_name\<close> of \<open>null\<close> throws inside the \<open>try\<close>), while the text \<open>5\<close>, which is no
  more a structured payload than \<open>null\<close> is, gives a result of defaults; and a \<open>feedback\<close>
  of the wrong type that is truthy, here the number \<open>7\<close>, is returned as it is, not
  defaulted.
\<close>

theorem parsed_null_counterexample:
  "parse_literals (js ''null'') = Some JNull
   \<and> gradeSubmission parse_literals (responds (js ''null'')) answer_key [page 1]
        gemini_3_flash_preview = Inl (Error_obj PARSE_FAILED)
   \<and> parse_literals (js ''5'') = Some (JNum 5)
   \<and> gradeSubmission parse_literals (responds (js ''5'')) answer_key [page 1]
        gemini_3_flash_preview =
       Inr \<lparr>ret_student_name = NAME_SENTINEL, ret_student_class = CLASS_SENTINEL,
            ret_total_score = 0, ret_feedback = JStr NO_FEEDBACK, ret_scores = [],
            ret_hasOCRIssues = True\<rparr>
   \<and> parse_literals (js ''{\"feedback\":7}'') = Some (JObj [(js ''feedback'', JNum 7)])
   \<and> map_sum id ret_feedback
        (gradeSubmission parse_literals (responds (js ''{\"feedback\":7}'')) answer_key [page 1]
           gemini_3_flash_preview) = Inr (JNum 7)"
  by (simp add: gradeSubmission_def responds_def parse_literals_def normalise_def js_def Let_def
        missing_or_blank_def)

section \<open>The rasteriser\<close>

lemma render_pages_throws:
  "list_ex throws pages \<Longrightarrow> \<exists>e. render_pages nm i pages acc = Inl e"
  by (induction pages arbitrary: i acc) (auto split: page_render.splits)

lemma render_pages_encoded:
  "list_all encoded pages \<Longrightarrow>
   \<exists>fs. render_pages nm i pages acc = Inr (acc @ fs) \<and> length fs = length pages
        \<and> map blob fs = map (\<lambda>pg. case pg of Blob_ok b \<Rightarrow> b | _ \<Rightarrow> []) pages"
proof (induction pages arbitrary: i acc)
  case Nil
  then show ?case by simp
next
  case (Cons pg pages)
  then obtain b where pg: "pg = Blob_ok b" by (cases pg) auto
  let ?f = "\<lparr>name = replace_first (js ''.pdf'') [] nm @ js ''_page_'' @ string_of_nat i @ js ''.jpg'',
               type = js ''image/jpeg'', blob = b\<rparr>"
  from Cons.prems have "list_all encoded pages" by simp
  from Cons.IH[OF this, of "i + 1" "acc @ [?f]"]
  obtain fs where fs: "render_pages nm (i + 1) pages (acc @ [?f]) = Inr ((acc @ [?f]) @ fs)"
    "length fs = length pages"
    "map blob fs = map (\<lambda>pg. case pg of Blob_ok b \<Rightarrow> b | _ \<Rightarrow> []) pages"
    by blast
  show ?case
    by (rule exI[of _ "?f # fs"]) (use fs pg in simp)
qed

lemma handleFileSelect_conversion_fails:
  assumes "isBulkMode st" and "type file = js ''application/pdf''"
    and "convertPdfToImages pdfjs file = Inl e"
  shows "\<exists>st'. handleFileSelect pdfjs uuidv4 (Some (file # others)) st = Some st'
     \<and> submissions st' = submissions st \<and> toastMessage st' = Some TOAST_PDF_ERROR"
  using assms by (simp add: handleFileSelect_def showToast_def)

text \<open>
  Claim C4 does not hold of the code. When \<open>toBlob\<close> hands \<open>null\<close> to its callback for a
  page, \<open>convertPdfToImages\<close> skips the page and goes on: a document of three pages whose
  second page cannot be encoded gives two files and no error. (A page that throws does
  fail the whole conversion, pages that all encode give one file each, in order, and a
  failed conversion adds no record to the queue: the three lemmas above.)
\<close>

theorem convertPdfToImages_drops_page:
  "convertPdfToImages second_blob_null scan_pdf =
     Inr [\<lparr>name = js ''scan_page_1.jpg'', type = js ''image/jpeg'', blob = [1]\<rparr>,
          \<lparr>name = js ''scan_page_3.jpg'', type = js ''image/jpeg'', blob = [3]\<rparr>]"
  by (simp add: convertPdfToImages_def second_blob_null_def scan_pdf_def js_def
        string_of_nat.simps)

section \<open>Export columns\<close>

lemma distinct_set_add: "distinct xs \<Longrightarrow> distinct (set_add x xs)"
  by (simp add: set_add_def)

lemma set_set_add: "set (set_add x xs) = insert x (set xs)"
  by (auto simp: set_add_def)

lemma foldl_set_add:
  "distinct acc \<Longrightarrow>
   distinct (foldl (\<lambda>acc' s. set_add (q_num s) acc') acc ss)
   \<and> set (foldl (\<lambda>acc' s. set_add (q_num s) acc') acc ss) = set acc \<union> q_num ` set ss"
  by (induction ss arbitrary: acc) (auto simp: distinct_set_add set_set_add)

lemma foldl_allQNums:
  "distinct acc \<Longrightarrow>
   distinct (foldl (\<lambda>acc sub. case result sub of None \<Rightarrow> acc
                     | Some r \<Rightarrow> foldl (\<lambda>acc' s. set_add (q_num s) acc') acc (scores r)) acc cs)
   \<and> set (foldl (\<lambda>acc sub. case result sub of None \<Rightarrow> acc
                     | Some r \<Rightarrow> foldl (\<lambda>acc' s. set_add (q_num s) acc') acc (scores r)) acc cs)
     = set acc \<union> {q. \<exists>sub r s. sub \<in> set cs \<and> result sub = Some r \<and> s \<in> set (scores r)
                          \<and> q = q_num s}"
proof (induction cs arbitrary: acc)
  case Nil
  then show ?case by simp
next
  case (Cons c cs)
  show ?case
  proof (cases "result c")
    case None
    with Cons.IH[OF Cons.prems] show ?thesis by auto
  next
    case (Some r)
    let ?acc = "foldl (\<lambda>acc' s. set_add (q_num s) acc') acc (scores r)"
    from foldl_set_add[OF Cons.prems, of "scores r"]
    have d: "distinct ?acc" and s: "set ?acc = set acc \<union> q_num ` set (scores r)" by simp_all
    have "{q. \<exists>sub r s. sub \<in> set (c # cs) \<and> result sub = Some r \<and> s \<in> set (scores r)
                          \<and> q = q_num s}
        = q_num ` set (scores r) \<union>
          {q. \<exists>sub r s. sub \<in> set cs \<and> result sub = Some r \<and> s \<in> set (scores r)
                          \<and> q = q_num s}"
      using Some by auto
    with Cons.IH[OF d] Some s show ?thesis by (simp add: Un_assoc)
  qed
qed

lemma allQNums_distinct: "distinct (allQNums cs)"
  using foldl_allQNums[of "[]" cs] by (simp add: allQNums_def)

lemma allQNums_set:
  "set (allQNums cs) =
     {q. \<exists>sub r s. sub \<in> set cs \<and> result sub = Some r \<and> s \<in> set (scores r) \<and> q = q_num s}"
  using foldl_allQNums[of "[]" cs] by (simp add: allQNums_def)

lemma length_qCols: "length (qCols num_str res qs) = 2 * length qs"
  by (induction qs) (auto simp: qCols_def split: option.splits)

lemma length_question_headers:
  "length (concat (map (\<lambda>q. [a q, b q]) qs)) = 2 * length qs"
  by (induction qs) simp_all

text \<open>
  The cells of the export. For every queue, the question numbers are strictly ascending
  and are exactly the \<open>q_num\<close>s of the scores of the completed records (each distinct number
  once); the header cells of \<open>getExportData\<close>, of the CSV download and of the clipboard copy
  are \<open>Class\<close>, \<open>Name\<close>, \<open>Total Score\<close>, then for each of these numbers in that order one
  answer cell and one score cell, then \<open>Feedback\<close>; and every row is joined from as many
  cells as the header.
\<close>

lemma export_cells:
  "sorted_wrt (<) (sortedQNums (completedSubmissions subs))
   \<and> set (sortedQNums (completedSubmissions subs)) =
       {q. \<exists>sub r s. sub \<in> set subs \<and> status sub = completed \<and> result sub = Some r
                     \<and> s \<in> set (scores r) \<and> q = q_num s}
   \<and> fst (getExportData num_str separator subs) =
       js_join separator
         ([js ''Class'', js ''Name'', js ''Total Score'']
          @ concat (map (\<lambda>q. [js ''Q'' @ num_str q @ js '' Ans'', js ''Q'' @ num_str q @ js '' Score''])
                      (sortedQNums (completedSubmissions subs)))
          @ [js ''Feedback''])
   \<and> handleExportCSV num_str subs =
       (if completedSubmissions subs = [] then None
        else Some ([65279] @ js_join [10]
               [js_join (js '','')
                  ([js ''Class'', js ''Name'', js ''Total Score'']
                   @ concat (map (\<lambda>q. [js ''Q'' @ num_str q @ js '' Ans'',
                                        js ''Q'' @ num_str q @ js '' Score''])
                               (sortedQNums (completedSubmissions subs)))
                   @ [js ''Feedback'']),
                snd (getExportData num_str (js '','') subs)]))
   \<and> handleCopyToClipboard num_str subs =
       (if completedSubmissions subs = [] then None
        else Some (js_join [10]
               (js_join [9]
                  ([js ''Class'', js ''Name'', js ''Total Score'']
                   @ concat (map (\<lambda>q. [js ''Q'' @ num_str q @ js '' Ans'',
                                        js ''Q'' @ num_str q @ js '' Score''])
                               (sortedQNums (completedSubmissions subs)))
                   @ [js ''Feedback''])
                # map (\<lambda>sub. case result sub of
                                None \<Rightarrow> []
                              | Some res \<Rightarrow>
                                  js_join [9]
                                    (tsv_row_cells num_str (sortedQNums (completedSubmissions subs)) res))
                    (completedSubmissions subs))))
   \<and> length (csv_row_cells num_str (sortedQNums (completedSubmissions subs)) res) =
       length (export_headers num_str (sortedQNums (completedSubmissions subs)))
   \<and> length (tsv_row_cells num_str (sortedQNums (completedSubmissions subs)) res) =
       length (export_headers num_str (sortedQNums (completedSubmissions subs)))
   \<and> length (export_headers num_str (sortedQNums (completedSubmissions subs))) =
       2 * length (sortedQNums (completedSubmissions subs)) + 4"
proof -
  let ?cs = "completedSubmissions subs"
  let ?qs = "sortedQNums ?cs"
  have a: "sorted_wrt (<) ?qs"
    by (simp add: sortedQNums_def strict_sorted_iff allQNums_distinct)
  have b: "set ?qs =
       {q. \<exists>sub r s. sub \<in> set subs \<and> status sub = completed \<and> result sub = Some r
                     \<and> s \<in> set (scores r) \<and> q = q_num s}"
    by (auto simp: sortedQNums_def allQNums_set completedSubmissions_def)
  have c: "fst (getExportData num_str separator subs) =
       js_join separator
         ([js ''Class'', js ''Name'', js ''Total Score'']
          @ concat (map (\<lambda>q. [js ''Q'' @ num_str q @ js '' Ans'', js ''Q'' @ num_str q @ js '' Score'']) ?qs)
          @ [js ''Feedback''])" for separator
    by (simp add: getExportData_def Let_def export_headers_def)
  have d: "handleExportCSV num_str subs =
       (if ?cs = [] then None
        else Some ([65279] @ js_join [10]
               [js_join (js '','')
                  ([js ''Class'', js ''Name'', js ''Total Score'']
                   @ concat (map (\<lambda>q. [js ''Q'' @ num_str q @ js '' Ans'',
                                        js ''Q'' @ num_str q @ js '' Score'']) ?qs)
                   @ [js ''Feedback'']),
                snd (getExportData num_str (js '','') subs)]))"
  proof -
    obtain hd_line row_lines
      where hr: "getExportData num_str (js '','') subs = (hd_line, row_lines)"
      by (cases "getExportData num_str (js '','') subs")
    from c[of "js '',''"] have "hd_line =
       js_join (js '','')
         ([js ''Class'', js ''Name'', js ''Total Score'']
          @ concat (map (\<lambda>q. [js ''Q'' @ num_str q @ js '' Ans'', js ''Q'' @ num_str q @ js '' Score'']) ?qs)
          @ [js ''Feedback''])"
      unfolding hr fst_conv .
    then show ?thesis
      unfolding handleExportCSV_def hr by simp
  qed
  have e: "handleCopyToClipboard num_str subs =
       (if ?cs = [] then None
        else Some (js_join [10]
               (js_join [9]
                  ([js ''Class'', js ''Name'', js ''Total Score'']
                   @ concat (map (\<lambda>q. [js ''Q'' @ num_str q @ js '' Ans'',
                                        js ''Q'' @ num_str q @ js '' Score'']) ?qs)
                   @ [js ''Feedback''])
                # map (\<lambda>sub. case result sub of
                                None \<Rightarrow> []
                              | Some res \<Rightarrow> js_join [9] (tsv_row_cells num_str ?qs res)) ?cs)))"
    unfolding handleCopyToClipboard_def sortedQNums_def Let_def by simp
  have h: "length (export_headers num_str ?qs) = 2 * length ?qs + 4"
    by (simp add: export_headers_def length_question_headers)
  have f: "length (csv_row_cells num_str ?qs res) = length (export_headers num_str ?qs)"
    by (simp add: h csv_row_cells_def length_qCols)
  have g: "length (tsv_row_cells num_str ?qs res) = length (export_headers num_str ?qs)"
    by (simp add: h tsv_row_cells_def length_qCols)
  from a b c d e f g h show ?thesis by simp
qed

lemma split_on_nonempty: "split_on c s \<noteq> []"
  by (induction s) (auto split: list.splits)

lemma split_on_no_sep: "c \<notin> set s \<Longrightarrow> split_on c s = [s]"
  by (induction s) auto

lemma split_on_append: "c \<notin> set s \<Longrightarrow> split_on c (s @ c # rest) = s # split_on c rest"
  by (induction s) auto

lemma split_on_join:
  "cells \<noteq> [] \<Longrightarrow> \<forall>cell \<in> set cells. c \<notin> set cell \<Longrightarrow>
   split_on c (js_join [c] cells) = cells"
proof (induction "[c]" cells rule: js_join.induct)
  case 1
  then show ?case by simp
next
  case (2 x)
  then show ?case by (simp add: split_on_no_sep)
next
  case (3 x y ys)
  then show ?case by (simp add: split_on_append)
qed

text \<open>
  The header line, as text: when the conversion of a number yields no separator, splitting
  the header line of the CSV (separator comma) or of the clipboard copy (separator tab)
  gives back the header cells, one answer and one score column for each question number.
\<close>

lemma header_cells_no_sep:
  assumes "\<forall>q. c \<notin> set (num_str q)" and "c = 44 \<or> c = 9"
  shows "\<forall>cell \<in> set (export_headers num_str qs). c \<notin> set cell"
  using assms by (auto simp: export_headers_def js_def)

lemma header_line_fields:
  assumes "\<forall>q. c \<notin> set (num_str q)" and "c = 44 \<or> c = 9"
  shows "split_on c (fst (getExportData num_str [c] subs)) =
     export_headers num_str (sortedQNums (completedSubmissions subs))"
proof -
  have "export_headers num_str (sortedQNums (completedSubmissions subs)) \<noteq> []"
    by (simp add: export_headers_def)
  from split_on_join[OF this header_cells_no_sep[OF assms]]
  show ?thesis by (simp add: getExportData_def Let_def)
qed



lemma export_example:
  "sortedQNums (completedSubmissions
      [graded (js ''a'') [score_item 3 1 ''2'', score_item 1 0 ''X'', score_item 3 0 ''4''],
       fresh_submission (js ''b'') [page 2],
       graded (js ''c'') [score_item 2 1 ''5'', score_item 1 1 ''1'']]) = [1, 2, 3]"
  by (simp add: sortedQNums_def allQNums_def completedSubmissions_def graded_def score_item_def
        fresh_submission_def set_add_def)

end
